theory Spec2Isabelle
  imports Main
begin

section \<open>IPv4 fragmentation visualizer: the fragmentation engine\<close>

text \<open>
  A shallow embedding of \<^verbatim>\<open>ipv4_fragmentation_visualizer.py\<close>: the static methods
  \<^verbatim>\<open>IPv4Fragmenter.fragment_packet\<close> and
  \<^verbatim>\<open>IPv4Fragmenter.validate_fragmentation_inputs\<close>, and the methods
  \<^verbatim>\<open>validate_inputs\<close>, \<^verbatim>\<open>simulate_fragmentation\<close>,
  \<^verbatim>\<open>clear_visualization_area\<close> and \<^verbatim>\<open>create_hop_table\<close> of
  \<^verbatim>\<open>IPv4FragmentationApp\<close>.

  Python integers are unbounded, so they are \<^typ>\<open>int\<close>; \<^verbatim>\<open>//\<close> and \<^verbatim>\<open>%\<close> with a
  positive divisor are \<open>div\<close> and \<open>mod\<close> on \<^typ>\<open>int\<close> (both round towards minus
  infinity). A raised exception is the left injection of a sum. A result is wrapped in
  \<^typ>\<open>'a option\<close> where the source has a \<^verbatim>\<open>while\<close> loop: \<open>None\<close> is a call that
  does not return. Logging calls are left out: they change nothing the engine reads.
\<close>

subsection \<open>Formatting integers\<close>

text \<open>What an f-string or \<^verbatim>\<open>str\<close> prints for a Python \<^verbatim>\<open>int\<close>: decimal digits, with a
  leading minus sign for a negative number. \<open>digit_char\<close> is only applied to \<open>n < 10\<close>.\<close>

definition digit_char :: "nat \<Rightarrow> char" where
  "digit_char n = ''0123456789'' ! n"

fun str_nat :: "nat \<Rightarrow> string" where
  "str_nat n = (if n < 10 then [digit_char n] else str_nat (n div 10) @ [digit_char (n mod 10)])"

declare str_nat.simps [simp del]

definition str_int :: "int \<Rightarrow> string" where
  "str_int i = (if i < 0 then CHR ''-'' # str_nat (nat (- i)) else str_nat (nat i))"

subsection \<open>Configuration\<close>

text \<open>The validation limits of the dataclass \<^verbatim>\<open>AppConfig\<close> (its theme, window and export
  fields play no part in the engine) and the instance \<^verbatim>\<open>AppConfig()\<close> built from the
  field defaults.\<close>

record AppConfig =
  min_packet_size :: int
  max_packet_size :: int
  min_header_size :: int
  max_header_size :: int
  min_mtu :: int
  max_mtu :: int
  max_fragment_offset :: int

definition AppConfig_default :: AppConfig where
  "AppConfig_default =
     \<lparr>min_packet_size = 20, max_packet_size = 65535,
      min_header_size = 20, max_header_size = 60,
      min_mtu = 68, max_mtu = 65535,
      max_fragment_offset = 8191\<rparr>"

subsection \<open>Errors and fragments\<close>

datatype error = ValueError string

text \<open>A fragment is the tuple \<^verbatim>\<open>(fragment_id, data_length, fragment_offset, sequence_num)\<close>.\<close>

type_synonym fragment = "int \<times> int \<times> int \<times> int"

definition frag_ident :: "fragment \<Rightarrow> int" where
  "frag_ident f = fst f"

definition data_length :: "fragment \<Rightarrow> int" where
  "data_length f = fst (snd f)"

definition offset_units :: "fragment \<Rightarrow> int" where
  "offset_units f = fst (snd (snd f))"

definition sequence :: "fragment \<Rightarrow> int" where
  "sequence f = snd (snd (snd f))"

subsection \<open>\<^verbatim>\<open>IPv4Fragmenter.fragment_packet\<close>\<close>

definition offset_overflow_msg :: "int \<Rightarrow> int \<Rightarrow> string" where
  "offset_overflow_msg fragment_offset current_offset =
     ''Fragment offset '' @ str_int fragment_offset @ '' exceeds maximum (8191). '' @
     ''Packet too large for fragmentation at offset '' @ str_int current_offset @ '' bytes.''"

definition mtu_too_small_msg :: "int \<Rightarrow> int \<Rightarrow> string" where
  "mtu_too_small_msg mtu header_size =
     ''MTU '' @ str_int mtu @ '' too small for header '' @ str_int header_size @
     '' + minimum data (8)''"

text \<open>The \<^verbatim>\<open>while remaining_data > 0\<close> loop, with the local variables it updates as
  arguments. It need not terminate for \<open>max_data \<le> 0\<close>, so its result is an option.\<close>

partial_function (option) fragment_loop ::
  "int \<Rightarrow> int \<Rightarrow> int \<Rightarrow> int \<Rightarrow> int \<Rightarrow> fragment list \<Rightarrow> (error + fragment list) option" where
  "fragment_loop fragment_id max_data remaining_data current_offset seq_num fragments =
     (if remaining_data > 0 then
        (let frag_data = min remaining_data max_data;
             frag_data = (if remaining_data > max_data then (frag_data div 8) * 8 else frag_data);
             fragment_offset = current_offset div 8
         in if fragment_offset > 8191
            then Some (Inl (ValueError (offset_overflow_msg fragment_offset current_offset)))
            else fragment_loop fragment_id max_data (remaining_data - frag_data)
                   (current_offset + frag_data) (seq_num + 1)
                   (fragments @ [(fragment_id, frag_data, fragment_offset, seq_num)]))
      else Some (Inr fragments))"

declare fragment_loop.simps [code]

definition fragment_packet ::
  "int \<Rightarrow> int \<Rightarrow> int \<Rightarrow> int \<Rightarrow> int \<Rightarrow> (error + fragment list) option" where
  "fragment_packet data_size offset header_size mtu fragment_id =
     (if data_size < 0 then Some (Inl (ValueError ''Data size cannot be negative''))
      else if data_size = 0 then Some (Inl (ValueError ''No data to fragment''))
      else if mtu < header_size + 8
        then Some (Inl (ValueError (mtu_too_small_msg mtu header_size)))
      else
        (let max_data = mtu - header_size;
             max_data = (max_data div 8) * 8
         in fragment_loop fragment_id max_data data_size offset 1 []))"

subsection \<open>\<^verbatim>\<open>IPv4Fragmenter.validate_fragmentation_inputs\<close>\<close>

definition mtu_hop_prefix :: "int \<Rightarrow> int \<Rightarrow> string" where
  "mtu_hop_prefix i mtu = ''MTU at hop '' @ str_int (i + 1) @ '' ('' @ str_int mtu @ '' bytes) ''"

text \<open>The loop \<^verbatim>\<open>for i, mtu in enumerate(mtu_path)\<close>; \<open>i\<close> is the index of the head of the
  list that is left.\<close>

fun validate_mtus :: "AppConfig \<Rightarrow> int \<Rightarrow> int \<Rightarrow> int list \<Rightarrow> error + unit" where
  "validate_mtus config header_size i [] = Inr ()"
| "validate_mtus config header_size i (mtu # mtu_path) =
     (if mtu < min_mtu config then
        Inl (ValueError (mtu_hop_prefix i mtu @ ''is below minimum ('' @
                         str_int (min_mtu config) @ '' bytes per RFC 791)''))
      else if mtu > max_mtu config then
        Inl (ValueError (mtu_hop_prefix i mtu @ ''exceeds maximum ('' @
                         str_int (max_mtu config) @ '' bytes)''))
      else if mtu < header_size + 8 then
        Inl (ValueError (mtu_hop_prefix i mtu @ ''too small for header ('' @
                         str_int header_size @ '' bytes) + minimum data (8 bytes)''))
      else validate_mtus config header_size (i + 1) mtu_path)"

definition validate_fragmentation_inputs :: "int \<Rightarrow> int \<Rightarrow> int list \<Rightarrow> error + unit" where
  "validate_fragmentation_inputs packet_size header_size mtu_path =
     (let config = AppConfig_default in
      if packet_size < min_packet_size config then
        Inl (ValueError (''Packet size must be at least '' @
                         str_int (min_packet_size config) @ '' bytes''))
      else if packet_size > max_packet_size config then
        Inl (ValueError (''Packet size cannot exceed '' @
                         str_int (max_packet_size config) @ '' bytes''))
      else if header_size < min_header_size config then
        Inl (ValueError (''Header size must be at least '' @
                         str_int (min_header_size config) @ '' bytes (RFC 791)''))
      else if header_size > max_header_size config then
        Inl (ValueError (''Header size cannot exceed '' @
                         str_int (max_header_size config) @ '' bytes (RFC 791)''))
      else if header_size mod 4 \<noteq> 0 then
        Inl (ValueError ''Header size must be a multiple of 4 bytes (RFC 791)'')
      else
        (let data_size = packet_size - header_size in
         if data_size < 0 then Inl (ValueError ''Packet size must be greater than header size'')
         else if data_size = 0 then Inl (ValueError ''Packet contains no data (header only)'')
         else if mtu_path = [] then Inl (ValueError ''MTU path cannot be empty'')
         else validate_mtus config header_size 0 mtu_path))"

subsection \<open>The application state\<close>

text \<open>The dictionaries built by \<^verbatim>\<open>simulate_fragmentation\<close>: one per hop (keys
  \<^verbatim>\<open>hop_num\<close>, \<^verbatim>\<open>mtu\<close>, \<^verbatim>\<open>fragments\<close>) and the report \<^verbatim>\<open>self.current_results\<close>
  (keys \<^verbatim>\<open>fragment_id\<close>, \<^verbatim>\<open>original_packet_size\<close>, \<^verbatim>\<open>header_size\<close>, \<^verbatim>\<open>mtu_path\<close>,
  \<^verbatim>\<open>hops\<close>, \<^verbatim>\<open>timestamp\<close>). The fields carry a prefix to keep the key names free for
  variables.\<close>

record hop_data =
  hd_hop_num :: int
  hd_mtu :: int
  hd_fragments :: "fragment list"

record results =
  res_fragment_id :: int
  res_original_packet_size :: int
  res_header_size :: int
  res_mtu_path :: "int list"
  res_hops :: "hop_data list"
  res_timestamp :: string

text \<open>One table of the visualization area: hop number, MTU, and the rows of cell texts
  that \<^verbatim>\<open>create_hop_table\<close> lays out.\<close>

record hop_table =
  tbl_hop_num :: int
  tbl_mtu :: int
  tbl_rows :: "string list list"

text \<open>What the simulation reads and writes of the application object: the attribute
  \<^verbatim>\<open>current_results\<close> (\<open>None\<close> at start-up), whether the export button is in state
  \<^verbatim>\<open>normal\<close>, the children of \<^verbatim>\<open>viz_scroll\<close>, and the error dialogs shown so far (title
  and text of every \<^verbatim>\<open>messagebox.showerror\<close>).\<close>

record app =
  current_results :: "results option"
  export_btn_normal :: bool
  viz_scroll :: "hop_table list"
  error_boxes :: "(string \<times> string) list"

definition app_init :: app where
  "app_init = \<lparr>current_results = None, export_btn_normal = False, viz_scroll = [],
               error_boxes = []\<rparr>"

definition showerror :: "string \<Rightarrow> string \<Rightarrow> app \<Rightarrow> app" where
  "showerror title text self = self\<lparr>error_boxes := error_boxes self @ [(title, text)]\<rparr>"

definition clear_visualization_area :: "app \<Rightarrow> app" where
  "clear_visualization_area self = self\<lparr>viz_scroll := []\<rparr>"

subsection \<open>\<^verbatim>\<open>create_hop_table\<close>\<close>

text \<open>The More-Fragments flag of row \<open>idx\<close>: \<^verbatim>\<open>idx < len(fragments) - 1\<close>.\<close>

definition mf_flag :: "int \<Rightarrow> fragment list \<Rightarrow> bool" where
  "mf_flag idx fragments = (idx < int (length fragments) - 1)"

definition row_data :: "int \<Rightarrow> bool \<Rightarrow> fragment \<Rightarrow> string list" where
  "row_data header_size mf f =
     (case f of (frag_id, data_size, offset, seq_num) \<Rightarrow>
        (let offset_bytes = offset * 8 in
         [''#'' @ str_int seq_num,
          str_int frag_id,
          str_int (data_size + header_size) @ '' B'',
          str_int data_size @ '' B'',
          str_int offset_bytes,
          str_int offset,
          if mf then ''1 (More)'' else ''0 (Last)'']))"

text \<open>The data rows: \<^verbatim>\<open>for idx, (...) in enumerate(fragments)\<close>, with \<open>all_fragments\<close> the
  whole list (for its length) and \<open>idx\<close> the index of the head of the list that is left.\<close>

fun data_rows :: "int \<Rightarrow> fragment list \<Rightarrow> int \<Rightarrow> fragment list \<Rightarrow> string list list" where
  "data_rows header_size all_fragments idx [] = []"
| "data_rows header_size all_fragments idx (f # fragments) =
     row_data header_size (mf_flag idx all_fragments) f
       # data_rows header_size all_fragments (idx + 1) fragments"

definition create_hop_table ::
  "int \<Rightarrow> int \<Rightarrow> fragment list \<Rightarrow> int \<Rightarrow> int \<Rightarrow> app \<Rightarrow> app" where
  "create_hop_table hop_num mtu fragments header_size packet_id self =
     self\<lparr>viz_scroll := viz_scroll self @
            [\<lparr>tbl_hop_num = hop_num, tbl_mtu = mtu,
              tbl_rows = data_rows header_size fragments 0 fragments\<rparr>]\<rparr>"

subsection \<open>\<^verbatim>\<open>validate_inputs\<close> and \<^verbatim>\<open>simulate_fragmentation\<close>\<close>

text \<open>\<^verbatim>\<open>validate_inputs\<close> reads the three entry fields. What the built-in \<^verbatim>\<open>int\<close> makes
  of a text is an argument here: \<open>Inr\<close> of the integer, or \<open>Inl\<close> of the \<^verbatim>\<open>ValueError\<close> that
  \<^verbatim>\<open>int\<close> raises. The packet size and header size entries are given by that result; the
  MTU entry is given by the list of these results for its comma-separated items, in order,
  the empty list standing for an entry that is empty after \<^verbatim>\<open>strip()\<close> (for any other text
  \<^verbatim>\<open>split(',')\<close> returns at least one item). The method parses the packet size, then the
  header size, raises for an empty MTU entry, parses the items from left to right, and
  runs the central validation; every \<^verbatim>\<open>ValueError\<close> is raised again with a prefix.\<close>

definition reraise :: "error \<Rightarrow> error" where
  "reraise err =
     (case err of ValueError e \<Rightarrow>
        ValueError (''Input Validation Error:'' @ [CHR 0x0A, CHR 0x0A] @ e))"

text \<open>The list comprehension \<^verbatim>\<open>[int(x.strip()) for x in mtu_input.split(',')]\<close>: the
  first item that does not parse raises.\<close>

fun parse_items :: "(error + int) list \<Rightarrow> error + int list" where
  "parse_items [] = Inr []"
| "parse_items (x # xs) =
     (case x of
        Inl e \<Rightarrow> Inl e
      | Inr v \<Rightarrow> (case parse_items xs of Inl e \<Rightarrow> Inl e | Inr vs \<Rightarrow> Inr (v # vs)))"

definition validate_inputs ::
  "error + int \<Rightarrow> error + int \<Rightarrow> (error + int) list \<Rightarrow> error + (int \<times> int \<times> int list)" where
  "validate_inputs packet_size_entry header_size_entry mtu_path_entry =
     (case packet_size_entry of
        Inl e \<Rightarrow> Inl (reraise e)
      | Inr packet_size \<Rightarrow>
     (case header_size_entry of
        Inl e \<Rightarrow> Inl (reraise e)
      | Inr header_size \<Rightarrow>
     (if mtu_path_entry = [] then Inl (reraise (ValueError ''MTU path cannot be empty''))
      else
     (case parse_items mtu_path_entry of
        Inl e \<Rightarrow> Inl (reraise e)
      | Inr mtu_path \<Rightarrow>
     (case validate_fragmentation_inputs packet_size header_size mtu_path of
        Inl e \<Rightarrow> Inl (reraise e)
      | Inr _ \<Rightarrow> Inr (packet_size, header_size, mtu_path))))))"

text \<open>The loop \<^verbatim>\<open>for idx, (fid, dlen, off, _) in enumerate(sub_fragments)\<close>, which appends
  the sub-fragments to \<open>new_fragments\<close> under the sequence number
  \<^verbatim>\<open>len(new_fragments) + 1\<close>.\<close>

fun renumber :: "fragment list \<Rightarrow> fragment list \<Rightarrow> fragment list" where
  "renumber [] new_fragments = new_fragments"
| "renumber ((fid, dlen, off, _) # sub_fragments) new_fragments =
     renumber sub_fragments
       (new_fragments @ [(fid, dlen, off, int (length new_fragments) + 1)])"

text \<open>The loop \<^verbatim>\<open>for frag_id, data_len, offset, seq_num in fragments\<close> of one hop, with
  \<open>new_fragments\<close> as accumulator. An exception of \<^verbatim>\<open>fragment_packet\<close> leaves the loop.\<close>

fun refragment ::
  "int \<Rightarrow> int \<Rightarrow> fragment list \<Rightarrow> fragment list \<Rightarrow> (error + fragment list) option" where
  "refragment header_size mtu [] new_fragments = Some (Inr new_fragments)"
| "refragment header_size mtu ((frag_id, data_len, offset, seq_num) # fragments) new_fragments =
     (if data_len + header_size \<le> mtu then
        refragment header_size mtu fragments
          (new_fragments @ [(frag_id, data_len, offset, seq_num)])
      else
        (let offset_bytes = offset * 8 in
         case fragment_packet data_len offset_bytes header_size mtu frag_id of
           None \<Rightarrow> None
         | Some (Inl e) \<Rightarrow> Some (Inl e)
         | Some (Inr sub_fragments) \<Rightarrow>
             refragment header_size mtu fragments (renumber sub_fragments new_fragments)))"

text \<open>The loop \<^verbatim>\<open>for hop_idx, mtu in enumerate(mtu_path)\<close>. It appends to the \<^verbatim>\<open>hops\<close>
  list of the dictionary that \<^verbatim>\<open>self.current_results\<close> refers to, so the state it
  returns with an exception holds every hop recorded until then.\<close>

definition append_hop :: "hop_data \<Rightarrow> app \<Rightarrow> app" where
  "append_hop h self =
     self\<lparr>current_results :=
            map_option (\<lambda>r. r\<lparr>res_hops := res_hops r @ [h]\<rparr>) (current_results self)\<rparr>"

fun process_hops ::
  "int \<Rightarrow> int \<Rightarrow> int \<Rightarrow> int list \<Rightarrow> fragment list \<Rightarrow> app
     \<Rightarrow> ((error + fragment list) \<times> app) option" where
  "process_hops header_size fragment_id hop_idx [] fragments self = Some (Inr fragments, self)"
| "process_hops header_size fragment_id hop_idx (mtu # mtu_path) fragments self =
     (case refragment header_size mtu fragments [] of
        None \<Rightarrow> None
      | Some (Inl e) \<Rightarrow> Some (Inl e, self)
      | Some (Inr new_fragments) \<Rightarrow>
          (let fragments = new_fragments;
               hop = \<lparr>hd_hop_num = hop_idx + 1, hd_mtu = mtu, hd_fragments = fragments\<rparr>;
               self = append_hop hop self;
               self = create_hop_table (hop_idx + 1) mtu fragments header_size fragment_id self
           in process_hops header_size fragment_id (hop_idx + 1) mtu_path fragments self))"

text \<open>The body of the \<^verbatim>\<open>try\<close> block after \<^verbatim>\<open>validate_inputs\<close> has returned: from
  \<^verbatim>\<open>self.clear_visualization_area()\<close> to enabling the export button. The fragment
  identifier and the timestamp are read from the clock; here they are arguments.\<close>

definition run_simulation ::
  "int \<Rightarrow> int \<Rightarrow> int list \<Rightarrow> int \<Rightarrow> string \<Rightarrow> app \<Rightarrow> ((error + unit) \<times> app) option" where
  "run_simulation packet_size header_size mtu_path fragment_id now self =
     (let self = clear_visualization_area self;
          self = self\<lparr>current_results := Some
                   \<lparr>res_fragment_id = fragment_id,
                    res_original_packet_size = packet_size,
                    res_header_size = header_size,
                    res_mtu_path = mtu_path,
                    res_hops = [],
                    res_timestamp = now\<rparr>\<rparr>;
          data_size = packet_size - header_size;
          fragments = [(fragment_id, data_size, 0, 1)]
      in case process_hops header_size fragment_id 0 mtu_path fragments self of
           None \<Rightarrow> None
         | Some (Inl e, self) \<Rightarrow> Some (Inl e, self)
         | Some (Inr fragments, self) \<Rightarrow> Some (Inr (), self\<lparr>export_btn_normal := True\<rparr>))"

text \<open>The whole method: validation, the simulation, and the handler
  \<^verbatim>\<open>except ValueError\<close>, which shows the message in an error dialog.\<close>

definition simulate_fragmentation ::
  "error + int \<Rightarrow> error + int \<Rightarrow> (error + int) list \<Rightarrow> int \<Rightarrow> string \<Rightarrow> app
     \<Rightarrow> app option" where
  "simulate_fragmentation packet_size_entry header_size_entry mtu_path_entry fragment_id now self =
     (case validate_inputs packet_size_entry header_size_entry mtu_path_entry of
        Inl (ValueError e) \<Rightarrow> Some (showerror ''Validation Error'' e self)
      | Inr (packet_size, header_size, mtu_path) \<Rightarrow>
          (case run_simulation packet_size header_size mtu_path fragment_id now self of
             None \<Rightarrow> None
           | Some (Inl (ValueError e), self) \<Rightarrow> Some (showerror ''Validation Error'' e self)
           | Some (Inr _, self) \<Rightarrow> Some self))"

section \<open>Properties of fragment lists\<close>

text \<open>\<open>tiles fs a b\<close>: the fragments of \<open>fs\<close>, in order, cover the bytes from \<open>a\<close> to
  \<open>b\<close> one after the other, the byte offset of a fragment being its offset field times 8.
  \<open>aligned_but_last fs\<close>: every fragment but the last carries a multiple of 8 bytes.
  \<open>loop_post\<close> collects what the loop of \<^verbatim>\<open>fragment_packet\<close> guarantees of the
  fragments it appends when it starts with \<open>r\<close> bytes left at byte offset \<open>c\<close>.\<close>

fun tiles :: "fragment list \<Rightarrow> int \<Rightarrow> int \<Rightarrow> bool" where
  "tiles [] a b = (a = b)"
| "tiles (f # fs) a b = (offset_units f * 8 = a \<and> tiles fs (a + data_length f) b)"

fun aligned_but_last :: "fragment list \<Rightarrow> bool" where
  "aligned_but_last [] = True"
| "aligned_but_last [f] = True"
| "aligned_but_last (f # g # fs) = (data_length f mod 8 = 0 \<and> aligned_but_last (g # fs))"

definition loop_post :: "int \<Rightarrow> int \<Rightarrow> int \<Rightarrow> int \<Rightarrow> fragment list \<Rightarrow> bool" where
  "loop_post fid md r c new \<longleftrightarrow>
     tiles new (c div 8 * 8) (c div 8 * 8 + max r 0) \<and>
     (\<forall>f\<in>set new. 0 < data_length f \<and> data_length f \<le> md \<and> offset_units f \<le> 8191 \<and> frag_ident f = fid) \<and>
     (new = [] \<longleftrightarrow> r \<le> 0) \<and>
     aligned_but_last new \<and>
     (r mod 8 = 0 \<longrightarrow> (\<forall>f\<in>set new. data_length f mod 8 = 0))"

text \<open>\<open>same_data f g\<close>: two fragments that differ at most in their sequence number.\<close>

definition same_data :: "fragment \<Rightarrow> fragment \<Rightarrow> bool" where
  "same_data f g \<longleftrightarrow>
     frag_ident f = frag_ident g \<and> data_length f = data_length g \<and> offset_units f = offset_units g"

text \<open>\<open>hop_ok d frs\<close>: the list covers the \<open>d\<close> payload bytes from offset 0, every
  fragment carries data, and every fragment but the last carries a multiple of 8 bytes.\<close>

definition hop_ok :: "int \<Rightarrow> fragment list \<Rightarrow> bool" where
  "hop_ok d frs \<longleftrightarrow>
     tiles frs 0 d \<and> (\<forall>f\<in>set frs. 0 < data_length f) \<and> aligned_but_last frs"

section \<open>The loop of \<^verbatim>\<open>fragment_packet\<close>\<close>

lemma loop_stop: "r \<le> 0 \<Longrightarrow> fragment_loop fid md r c s acc = Some (Inr acc)"
  by (subst fragment_loop.simps) simp

lemma loop_overflow:
  "0 < r \<Longrightarrow> 8191 < c div 8 \<Longrightarrow>
   fragment_loop fid md r c s acc = Some (Inl (ValueError (offset_overflow_msg (c div 8) c)))"
  by (subst fragment_loop.simps) simp

lemma loop_step:
  assumes "0 < r" "c div 8 \<le> 8191" "md mod 8 = 0"
  shows "fragment_loop fid md r c s acc =
         fragment_loop fid md (r - min r md) (c + min r md) (s + 1)
           (acc @ [(fid, min r md, c div 8, s)])"
proof -
  have "md div 8 * 8 = md" using assms(3) by presburger
  then show ?thesis using assms(1,2)
    by (subst fragment_loop.simps) (simp add: Let_def min_def)
qed

lemma fragment_loop_spec:
  assumes md: "0 < md" "md mod 8 = 0"
  shows "\<exists>res. fragment_loop fid md r c s acc = Some res \<and>
     (case res of
        Inl e \<Rightarrow> (\<exists>k\<ge>0. k * md < r \<and> 8191 < (c + k * md) div 8) \<and>
                 (\<exists>fo co. e = ValueError (offset_overflow_msg fo co))
      | Inr out \<Rightarrow> (\<forall>k\<ge>0. k * md < r \<longrightarrow> (c + k * md) div 8 \<le> 8191) \<and>
                   (\<exists>new. out = acc @ new \<and> loop_post fid md r c new))"
proof (induction "nat r" arbitrary: r c s acc rule: less_induct)
  case less
  show ?case
  proof (cases "0 < r")
    case False
    then have "fragment_loop fid md r c s acc = Some (Inr acc)" by (simp add: loop_stop)
    moreover have "loop_post fid md r c []" using False by (simp add: loop_post_def)
    moreover have "\<forall>k\<ge>0. k * md < r \<longrightarrow> (c + k * md) div 8 \<le> 8191"
      using False md(1) by (auto simp: not_less dest: mult_nonneg_nonneg[of _ md])
    ultimately show ?thesis by simp
  next
    case pos: True
    show ?thesis
    proof (cases "8191 < c div 8")
      case True
      then have "fragment_loop fid md r c s acc =
                 Some (Inl (ValueError (offset_overflow_msg (c div 8) c)))"
        using pos by (simp add: loop_overflow)
      moreover have "\<exists>k\<ge>0. k * md < r \<and> 8191 < (c + k * md) div 8"
        using pos True by (intro exI[of _ 0]) simp
      ultimately show ?thesis by auto
    next
      case False
      define d where "d = min r md"
      define f :: fragment where "f = (fid, d, c div 8, s)"
      have d: "0 < d" "d \<le> r" "d \<le> md" using pos md(1) by (auto simp: d_def)
      have step: "fragment_loop fid md r c s acc =
                  fragment_loop fid md (r - d) (c + d) (s + 1) (acc @ [f])"
        using loop_step[OF pos _ md(2), of c fid s acc] False by (simp add: d_def f_def)
      have "nat (r - d) < nat r" using d pos by simp
      from less[OF this, of "c + d" "s + 1" "acc @ [f]"]
      obtain res where res: "fragment_loop fid md (r - d) (c + d) (s + 1) (acc @ [f]) = Some res"
        and post: "case res of
            Inl e \<Rightarrow> (\<exists>k\<ge>0. k * md < r - d \<and> 8191 < (c + d + k * md) div 8) \<and>
                     (\<exists>fo co. e = ValueError (offset_overflow_msg fo co))
          | Inr out \<Rightarrow> (\<forall>k\<ge>0. k * md < r - d \<longrightarrow> (c + d + k * md) div 8 \<le> 8191) \<and>
                       (\<exists>new. out = (acc @ [f]) @ new \<and> loop_post fid md (r - d) (c + d) new)"
        by blast
      have more: "d = md" if "0 < r - d" using that by (auto simp: d_def min_def split: if_splits)
      show ?thesis
      proof (cases res)
        case (Inl e)
        with post obtain k where k: "0 \<le> k" "k * md < r - d" "8191 < (c + d + k * md) div 8"
          and e: "\<exists>fo co. e = ValueError (offset_overflow_msg fo co)" by auto
        have "0 < r - d" using k(1,2) md(1) by (smt (verit) mult_nonneg_nonneg)
        then have dm: "d = md" by (rule more)
        have "0 \<le> k + 1" "(k + 1) * md < r" "8191 < (c + (k + 1) * md) div 8"
          using k dm by (simp_all add: algebra_simps)
        then have "\<exists>k\<ge>0. k * md < r \<and> 8191 < (c + k * md) div 8" by blast
        then show ?thesis using step res Inl e by simp
      next
        case (Inr out)
        with post obtain new where bnd: "\<forall>k\<ge>0. k * md < r - d \<longrightarrow> (c + d + k * md) div 8 \<le> 8191"
          and out: "out = (acc @ [f]) @ new" and lp: "loop_post fid md (r - d) (c + d) new" by auto
        have bound: "\<forall>k\<ge>0. k * md < r \<longrightarrow> (c + k * md) div 8 \<le> 8191"
        proof (intro allI impI)
          fix k :: int assume k: "0 \<le> k" "k * md < r"
          show "(c + k * md) div 8 \<le> 8191"
          proof (cases "k = 0")
            case True then show ?thesis using False by simp
          next
            case False
            then have k1: "0 \<le> k - 1" using k(1) by simp
            have "md \<le> k * md" using k1 md(1) by (smt (verit) mult_le_cancel_right1)
            then have "md < r" using k(2) by simp
            then have dm: "d = md" by (simp add: d_def)
            have "(k - 1) * md < r - d" using k(2) dm by (simp add: algebra_simps)
            with bnd k1 have "(c + d + (k - 1) * md) div 8 \<le> 8191" by blast
            then show ?thesis using dm by (simp add: algebra_simps)
          qed
        qed
        have c8: "(c + d) div 8 * 8 = c div 8 * 8 + d" if "0 < r - d"
          using more[OF that] md(2) by presburger
        have til: "tiles (f # new) (c div 8 * 8) (c div 8 * 8 + max r 0)"
        proof (cases "0 < r - d")
          case True
          then show ?thesis using lp c8[OF True] pos d
            by (simp add: loop_post_def f_def offset_units_def data_length_def max_def)
        next
          case False
          then have "r = d" using d by simp
          moreover have "new = []" using lp False by (simp add: loop_post_def)
          ultimately show ?thesis using pos
            by (simp add: f_def offset_units_def data_length_def max_def)
        qed
        have elems: "\<forall>g\<in>set (f # new). 0 < data_length g \<and> data_length g \<le> md \<and>
                        offset_units g \<le> 8191 \<and> frag_ident g = fid"
          using lp d \<open>\<not> 8191 < c div 8\<close>
          by (auto simp: loop_post_def f_def offset_units_def data_length_def frag_ident_def)
        have al: "aligned_but_last (f # new)"
        proof (cases new)
          case Nil then show ?thesis by simp
        next
          case (Cons g gs)
          then have "0 < r - d" using lp by (auto simp: loop_post_def)
          then have "d = md" by (rule more)
          then show ?thesis using Cons lp md(2) by (simp add: loop_post_def f_def data_length_def)
        qed
        have al8: "r mod 8 = 0 \<longrightarrow> (\<forall>g\<in>set (f # new). data_length g mod 8 = 0)"
        proof
          assume r8: "r mod 8 = 0"
          have "d mod 8 = 0" using r8 md(2) by (auto simp: d_def min_def)
          moreover from this r8 have "(r - d) mod 8 = 0" by presburger
          ultimately show "\<forall>g\<in>set (f # new). data_length g mod 8 = 0"
            using lp by (auto simp: loop_post_def f_def data_length_def)
        qed
        have "loop_post fid md r c (f # new)"
          unfolding loop_post_def using til elems al al8 pos by simp
        then show ?thesis using step res Inr out bound by simp
      qed
    qed
  qed
qed

section \<open>Tiling and alignment of fragment lists\<close>

lemma tiles_append: "tiles (xs @ ys) a b \<longleftrightarrow> (\<exists>m. tiles xs a m \<and> tiles ys m b)"
  by (induction xs arbitrary: a) auto

lemma tiles_sum: "tiles fs a b \<Longrightarrow> sum_list (map data_length fs) = b - a"
  by (induction fs arbitrary: a) auto

lemma tiles_le: "tiles fs a b \<Longrightarrow> \<forall>f\<in>set fs. 0 < data_length f \<Longrightarrow> a \<le> b"
  by (induction fs arbitrary: a) force+

lemma tiles_within:
  "tiles fs a b \<Longrightarrow> \<forall>f\<in>set fs. 0 < data_length f \<Longrightarrow> f \<in> set fs \<Longrightarrow>
   a \<le> offset_units f * 8 \<and> offset_units f * 8 + data_length f \<le> b"
proof (induction fs arbitrary: a)
  case Nil then show ?case by simp
next
  case (Cons g gs)
  have le: "a + data_length g \<le> b" using Cons.prems(1,2) tiles_le[of gs "a + data_length g" b] by simp
  show ?case
  proof (cases "f = g")
    case True then show ?thesis using Cons.prems le by simp
  next
    case False
    then have "f \<in> set gs" using Cons.prems(3) by simp
    with Cons.IH[of "a + data_length g"] Cons.prems(1,2)
    have "a + data_length g \<le> offset_units f * 8 \<and> offset_units f * 8 + data_length f \<le> b" by simp
    then show ?thesis using Cons.prems(2) by force
  qed
qed

lemma tiles_nth:
  "tiles fs a b \<Longrightarrow> Suc i < length fs \<Longrightarrow>
   offset_units (fs ! Suc i) * 8 = offset_units (fs ! i) * 8 + data_length (fs ! i)"
proof (induction fs arbitrary: a i)
  case Nil then show ?case by simp
next
  case (Cons g gs)
  show ?case
  proof (cases i)
    case 0
    then show ?thesis using Cons.prems by (cases gs) auto
  next
    case (Suc j)
    then show ?thesis using Cons.prems Cons.IH[of "a + data_length g" j] by simp
  qed
qed

lemma aligned_but_last_nth:
  "aligned_but_last fs \<Longrightarrow> Suc i < length fs \<Longrightarrow> data_length (fs ! i) mod 8 = 0"
proof (induction fs arbitrary: i rule: aligned_but_last.induct)
  case (3 f g fs)
  then show ?case by (cases i) auto
qed simp_all

lemma aligned_append:
  "\<forall>f\<in>set xs. data_length f mod 8 = 0 \<Longrightarrow> aligned_but_last ys \<Longrightarrow> aligned_but_last (xs @ ys)"
proof (induction xs)
  case Nil then show ?case by simp
next
  case (Cons x xs)
  then show ?case by (cases "xs @ ys") auto
qed

lemma aligned_Cons:
  "aligned_but_last (f # fs) \<longleftrightarrow> (fs = [] \<or> data_length f mod 8 = 0 \<and> aligned_but_last fs)"
  by (cases fs) auto

lemma same_data_tiles: "list_all2 same_data xs ys \<Longrightarrow> tiles xs a b = tiles ys a b"
  by (induction xs ys arbitrary: a rule: list_all2_induct) (auto simp: same_data_def)

lemma same_data_aligned:
  "list_all2 same_data xs ys \<Longrightarrow> aligned_but_last xs = aligned_but_last ys"
proof (induction xs ys rule: list_all2_induct)
  case Nil then show ?case by simp
next
  case (Cons x xs y ys)
  have "xs = [] \<longleftrightarrow> ys = []" using Cons.hyps(2) by (auto dest: list_all2_lengthD)
  then show ?case using Cons by (simp add: aligned_Cons same_data_def)
qed

lemma same_data_all:
  "list_all2 same_data xs ys \<Longrightarrow>
   (\<forall>f\<in>set xs. P (frag_ident f) (data_length f) (offset_units f)) =
   (\<forall>f\<in>set ys. P (frag_ident f) (data_length f) (offset_units f))"
  by (induction xs ys rule: list_all2_induct) (auto simp: same_data_def)

section \<open>One call of \<^verbatim>\<open>fragment_packet\<close>\<close>

lemma guard_messages_distinct:
  "''Data size cannot be negative'' \<noteq> ''No data to fragment''"
  "mtu_too_small_msg mtu header_size \<noteq> ''Data size cannot be negative''"
  "mtu_too_small_msg mtu header_size \<noteq> ''No data to fragment''"
  "offset_overflow_msg fo co \<noteq> ''Data size cannot be negative''"
  "offset_overflow_msg fo co \<noteq> ''No data to fragment''"
  "offset_overflow_msg fo co \<noteq> mtu_too_small_msg mtu header_size"
  by (simp_all add: mtu_too_small_msg_def offset_overflow_msg_def)

lemma fragment_packet_spec:
  assumes "0 < d" "h + 8 \<le> mtu"
  shows "\<exists>res. fragment_packet d off h mtu fid = Some res \<and>
     (case res of
        Inl e \<Rightarrow> (\<exists>k\<ge>0. k * ((mtu - h) div 8 * 8) < d \<and> 8191 < (off + k * ((mtu - h) div 8 * 8)) div 8) \<and>
                 (\<exists>fo co. e = ValueError (offset_overflow_msg fo co))
      | Inr out \<Rightarrow> (\<forall>k\<ge>0. k * ((mtu - h) div 8 * 8) < d \<longrightarrow> (off + k * ((mtu - h) div 8 * 8)) div 8 \<le> 8191) \<and>
                   loop_post fid ((mtu - h) div 8 * 8) d off out)"
proof -
  have "0 < (mtu - h) div 8 * 8" "(mtu - h) div 8 * 8 mod 8 = 0" using assms(2) by presburger+
  from fragment_loop_spec[OF this, of fid d off 1 "[]"]
  obtain res where "fragment_loop fid ((mtu - h) div 8 * 8) d off 1 [] = Some res"
    and "case res of
        Inl e \<Rightarrow> (\<exists>k\<ge>0. k * ((mtu - h) div 8 * 8) < d \<and> 8191 < (off + k * ((mtu - h) div 8 * 8)) div 8) \<and>
                 (\<exists>fo co. e = ValueError (offset_overflow_msg fo co))
      | Inr out \<Rightarrow> (\<forall>k\<ge>0. k * ((mtu - h) div 8 * 8) < d \<longrightarrow> (off + k * ((mtu - h) div 8 * 8)) div 8 \<le> 8191) \<and>
                   (\<exists>new. out = [] @ new \<and> loop_post fid ((mtu - h) div 8 * 8) d off new)"
    by blast
  then show ?thesis using assms
    by (cases res) (simp_all add: fragment_packet_def)
qed


lemma fragment_packet_returns: "\<exists>res. fragment_packet d off h mtu fid = Some res"
proof (cases "0 < d \<and> h + 8 \<le> mtu")
  case True
  then show ?thesis using fragment_packet_spec[of d h mtu off fid] by blast
next
  case False
  then show ?thesis by (auto simp: fragment_packet_def)
qed

lemma fragment_packet_Inr:
  assumes "fragment_packet d off h mtu fid = Some (Inr out)"
  shows "0 < d" "h + 8 \<le> mtu" "loop_post fid ((mtu - h) div 8 * 8) d off out"
    "\<forall>k\<ge>0. k * ((mtu - h) div 8 * 8) < d \<longrightarrow> (off + k * ((mtu - h) div 8 * 8)) div 8 \<le> 8191"
proof -
  show d: "0 < d" and m: "h + 8 \<le> mtu"
    using assms by (auto simp: fragment_packet_def split: if_splits)
  from fragment_packet_spec[OF d m, of off fid] assms
  show "loop_post fid ((mtu - h) div 8 * 8) d off out"
    "\<forall>k\<ge>0. k * ((mtu - h) div 8 * 8) < d \<longrightarrow> (off + k * ((mtu - h) div 8 * 8)) div 8 \<le> 8191"
    by auto
qed

lemma fragment_packet_sum:
  assumes "fragment_packet d off h mtu fid = Some (Inr out)"
  shows "sum_list (map data_length out) = d"
  using fragment_packet_Inr(1,3)[OF assms] tiles_sum[of out "off div 8 * 8" "off div 8 * 8 + max d 0"]
  by (simp add: loop_post_def)

section \<open>One hop\<close>

lemma renumber_append:
  "\<exists>new. renumber subs acc = acc @ new \<and> list_all2 same_data new subs"
proof (induction subs arbitrary: acc)
  case Nil then show ?case by simp
next
  case (Cons f subs)
  obtain fid dlen off s where f: "f = (fid, dlen, off, s)" by (cases f)
  from Cons[of "acc @ [(fid, dlen, off, int (length acc) + 1)]"]
  obtain new where "renumber subs (acc @ [(fid, dlen, off, int (length acc) + 1)]) =
      (acc @ [(fid, dlen, off, int (length acc) + 1)]) @ new" "list_all2 same_data new subs"
    by blast
  moreover have "same_data (fid, dlen, off, int (length acc) + 1) f"
    by (simp add: f same_data_def frag_ident_def data_length_def offset_units_def)
  ultimately show ?case unfolding f
    by (intro exI[of _ "(fid, dlen, off, int (length acc) + 1) # new"]) simp
qed

lemma refragment_spec:
  assumes "h + 8 \<le> mtu" "tiles frs a b" "\<forall>f\<in>set frs. 0 < data_length f"
    "aligned_but_last frs" "b \<le> 65536"
  shows "\<exists>new. refragment h mtu frs acc = Some (Inr (acc @ new)) \<and> tiles new a b \<and>
           (\<forall>f\<in>set new. 0 < data_length f) \<and> aligned_but_last new \<and>
           ((\<forall>f\<in>set frs. data_length f mod 8 = 0) \<longrightarrow> (\<forall>f\<in>set new. data_length f mod 8 = 0)) \<and>
           (new = [] \<longleftrightarrow> frs = [])"
  using assms(2-4)
proof (induction frs arbitrary: acc a)
  case Nil
  then show ?case by simp
next
  case (Cons f rest)
  obtain fid dlen off s where f: "f = (fid, dlen, off, s)" by (cases f)
  have off: "off * 8 = a" and rest: "tiles rest (a + dlen) b" and dlen: "0 < dlen"
    and pos: "\<forall>g\<in>set rest. 0 < data_length g"
    using Cons.prems by (simp_all add: f offset_units_def data_length_def)
  have al_rest: "aligned_but_last rest" and al_f: "rest \<noteq> [] \<Longrightarrow> dlen mod 8 = 0"
    using Cons.prems(3) by (auto simp: aligned_Cons f data_length_def)
  have le: "a + dlen \<le> b" using tiles_le[OF rest pos] .
  show ?case
  proof (cases "dlen + h \<le> mtu")
    case True
    from Cons.IH[OF rest pos al_rest, of "acc @ [f]"]
    obtain new where new: "refragment h mtu rest (acc @ [f]) = Some (Inr ((acc @ [f]) @ new))"
      "tiles new (a + dlen) b" "\<forall>g\<in>set new. 0 < data_length g" "aligned_but_last new"
      "(\<forall>g\<in>set rest. data_length g mod 8 = 0) \<longrightarrow> (\<forall>g\<in>set new. data_length g mod 8 = 0)"
      "new = [] \<longleftrightarrow> rest = []"
      by blast
    have "refragment h mtu (f # rest) acc = Some (Inr (acc @ f # new))"
      using True new(1) by (simp add: f)
    moreover have "tiles (f # new) a b"
      using new(2) off by (simp add: f offset_units_def data_length_def)
    moreover have "\<forall>g\<in>set (f # new). 0 < data_length g"
      using new(3) dlen by (simp add: f data_length_def)
    moreover have "aligned_but_last (f # new)"
      using new(4,6) al_f by (auto simp: aligned_Cons f data_length_def)
    moreover have "(\<forall>g\<in>set (f # rest). data_length g mod 8 = 0) \<longrightarrow>
                   (\<forall>g\<in>set (f # new). data_length g mod 8 = 0)"
      using new(5) by simp
    ultimately show ?thesis by blast
  next
    case False
    define md where "md = (mtu - h) div 8 * 8"
    from fragment_packet_spec[OF dlen assms(1), of "off * 8" fid]
    obtain res where res: "fragment_packet dlen (off * 8) h mtu fid = Some res"
      and post: "case res of
        Inl e \<Rightarrow> (\<exists>k\<ge>0. k * md < dlen \<and> 8191 < (off * 8 + k * md) div 8) \<and>
                 (\<exists>fo co. e = ValueError (offset_overflow_msg fo co))
      | Inr out \<Rightarrow> (\<forall>k\<ge>0. k * md < dlen \<longrightarrow> (off * 8 + k * md) div 8 \<le> 8191) \<and>
                   loop_post fid md dlen (off * 8) out"
      unfolding md_def by blast
    have no_overflow: "(off * 8 + k * md) div 8 \<le> 8191" if "k * md < dlen" for k
      using that le off assms(5) by linarith
    obtain subs where subs: "res = Inr subs" and lp: "loop_post fid md dlen (off * 8) subs"
      using post no_overflow by (cases res) (auto simp: not_less[symmetric])
    obtain subs' where ren: "renumber subs acc = acc @ subs'" and sd: "list_all2 same_data subs' subs"
      using renumber_append by blast
    have "off * 8 div 8 * 8 = off * 8" by simp
    then have "tiles subs (off * 8) (off * 8 + dlen)"
      using lp dlen by (simp add: loop_post_def)
    then have subs_tiles: "tiles subs' a (a + dlen)"
      using off same_data_tiles[OF sd] by simp
    have subs_pos: "\<forall>g\<in>set subs'. 0 < data_length g"
      using lp same_data_all[OF sd, of "\<lambda>_ l _. 0 < l"] by (simp add: loop_post_def)
    have subs_ne: "subs' \<noteq> []"
      using lp dlen sd by (auto simp: loop_post_def)
    have subs_al: "aligned_but_last subs'"
      using lp same_data_aligned[OF sd] by (simp add: loop_post_def)
    have subs_al8: "\<forall>g\<in>set subs'. data_length g mod 8 = 0" if "dlen mod 8 = 0"
      using lp that same_data_all[OF sd, of "\<lambda>_ l _. l mod 8 = 0"] by (simp add: loop_post_def)
    from Cons.IH[OF rest pos al_rest, of "acc @ subs'"]
    obtain new where new: "refragment h mtu rest (acc @ subs') = Some (Inr ((acc @ subs') @ new))"
      "tiles new (a + dlen) b" "\<forall>g\<in>set new. 0 < data_length g" "aligned_but_last new"
      "(\<forall>g\<in>set rest. data_length g mod 8 = 0) \<longrightarrow> (\<forall>g\<in>set new. data_length g mod 8 = 0)"
      "new = [] \<longleftrightarrow> rest = []"
      by blast
    have "refragment h mtu (f # rest) acc = Some (Inr (acc @ subs' @ new))"
      using False new(1) res subs ren by (simp add: f)
    moreover have "tiles (subs' @ new) a b"
      using subs_tiles new(2) by (auto simp: tiles_append)
    moreover have "\<forall>g\<in>set (subs' @ new). 0 < data_length g"
      using new(3) subs_pos by auto
    moreover have "aligned_but_last (subs' @ new)"
    proof (cases "rest = []")
      case True
      then show ?thesis using new(6) subs_al by simp
    next
      case False
      then show ?thesis using aligned_append[OF subs_al8[OF al_f] new(4)] by simp
    qed
    moreover have "(\<forall>g\<in>set (f # rest). data_length g mod 8 = 0) \<longrightarrow>
                   (\<forall>g\<in>set (subs' @ new). data_length g mod 8 = 0)"
    proof
      assume all: "\<forall>g\<in>set (f # rest). data_length g mod 8 = 0"
      then have "dlen mod 8 = 0" by (simp add: f data_length_def)
      from subs_al8[OF this] new(5) all
      show "\<forall>g\<in>set (subs' @ new). data_length g mod 8 = 0" by auto
    qed
    ultimately show ?thesis using subs_ne by blast
  qed
qed

lemma refragment_returns: "\<exists>res. refragment h mtu frs acc = Some res"
proof (induction frs arbitrary: acc)
  case Nil then show ?case by simp
next
  case (Cons f rest)
  obtain fid dlen off s where f: "f = (fid, dlen, off, s)" by (cases f)
  obtain res where res: "fragment_packet dlen (off * 8) h mtu fid = Some res"
    using fragment_packet_returns by blast
  show ?case using Cons[of "acc @ [f]"] Cons[of "renumber (projr res) acc"] res
    by (cases res) (auto simp: f)
qed

lemma refragment_prefix:
  "refragment h mtu frs acc = Some (Inr out) \<Longrightarrow> \<exists>new. out = acc @ new"
proof (induction frs arbitrary: acc)
  case Nil then show ?case by simp
next
  case (Cons f rest)
  obtain fid dlen off s where f: "f = (fid, dlen, off, s)" by (cases f)
  show ?case
  proof (cases "dlen + h \<le> mtu")
    case True
    then have "refragment h mtu rest (acc @ [f]) = Some (Inr out)" using Cons.prems by (simp add: f)
    from Cons.IH[OF this] show ?thesis by auto
  next
    case False
    then obtain subs where "fragment_packet dlen (off * 8) h mtu fid = Some (Inr subs)"
      and "refragment h mtu rest (renumber subs acc) = Some (Inr out)"
      using Cons.prems by (auto simp: f split: option.splits sum.splits)
    from Cons.IH[OF this(2)] renumber_append[of subs acc] show ?thesis by auto
  qed
qed

lemma refragment_sum:
  "refragment h mtu frs acc = Some (Inr out) \<Longrightarrow>
   sum_list (map data_length out) = sum_list (map data_length acc) + sum_list (map data_length frs)"
proof (induction frs arbitrary: acc)
  case Nil then show ?case by simp
next
  case (Cons f rest)
  obtain fid dlen off s where f: "f = (fid, dlen, off, s)" by (cases f)
  show ?case
  proof (cases "dlen + h \<le> mtu")
    case True
    then have "refragment h mtu rest (acc @ [f]) = Some (Inr out)" using Cons.prems by (simp add: f)
    from Cons.IH[OF this] show ?thesis by simp
  next
    case False
    then obtain subs where fp: "fragment_packet dlen (off * 8) h mtu fid = Some (Inr subs)"
      and rf: "refragment h mtu rest (renumber subs acc) = Some (Inr out)"
      using Cons.prems by (auto simp: f split: option.splits sum.splits)
    obtain subs' where ren: "renumber subs acc = acc @ subs'" and sd: "list_all2 same_data subs' subs"
      using renumber_append by blast
    have "map data_length subs' = map data_length subs"
      using sd by (induction subs' subs rule: list_all2_induct) (auto simp: same_data_def)
    then have "sum_list (map data_length subs') = dlen"
      using fragment_packet_sum[OF fp] by simp
    moreover have "data_length f = dlen" by (simp add: f data_length_def)
    ultimately show ?thesis using Cons.IH[OF rf] ren by simp
  qed
qed

lemma refragment_append:
  "refragment h mtu (xs @ ys) acc =
     (case refragment h mtu xs acc of
        None \<Rightarrow> None
      | Some (Inl e) \<Rightarrow> Some (Inl e)
      | Some (Inr acc') \<Rightarrow> refragment h mtu ys acc')"
proof (induction xs arbitrary: acc)
  case Nil then show ?case by simp
next
  case (Cons f rest)
  obtain fid dlen off s where f: "f = (fid, dlen, off, s)" by (cases f)
  show ?case using Cons by (simp add: f split: option.splits sum.splits)
qed

lemma refragment_all_fit:
  "\<forall>f\<in>set frs. data_length f + h \<le> mtu \<Longrightarrow> refragment h mtu frs acc = Some (Inr (acc @ frs))"
proof (induction frs arbitrary: acc)
  case Nil then show ?case by simp
next
  case (Cons f rest)
  obtain fid dlen off s where f: "f = (fid, dlen, off, s)" by (cases f)
  show ?case using Cons.prems Cons.IH[of "acc @ [f]"] by (simp add: f data_length_def)
qed

lemma refragment_pass_through:
  assumes "refragment h mtu (xs @ f # ys) acc = Some (Inr out)" "data_length f + h \<le> mtu"
  shows "\<exists>xs' ys'. refragment h mtu xs acc = Some (Inr xs') \<and>
                    refragment h mtu ys (xs' @ [f]) = Some (Inr out) \<and> out = xs' @ f # ys'"
proof -
  obtain fid dlen off s where f: "f = (fid, dlen, off, s)" by (cases f)
  obtain xs' where xs': "refragment h mtu xs acc = Some (Inr xs')"
    and rest: "refragment h mtu (f # ys) xs' = Some (Inr out)"
    using assms(1) by (auto simp: refragment_append split: option.splits sum.splits)
  have ys: "refragment h mtu ys (xs' @ [f]) = Some (Inr out)"
    using rest assms(2) by (simp add: f data_length_def)
  from refragment_prefix[OF this] xs' ys show ?thesis by auto
qed

section \<open>All hops\<close>

lemma process_hops_spec:
  assumes "\<forall>m\<in>set mtus. h + 8 \<le> m" "hop_ok d frs" "d \<le> 65536" "current_results self = Some r"
  shows "\<exists>frs' self' hs. process_hops h fid i mtus frs self = Some (Inr frs', self') \<and>
           current_results self' = Some (r\<lparr>res_hops := res_hops r @ hs\<rparr>) \<and>
           map hd_mtu hs = mtus \<and> (\<forall>hp\<in>set hs. hop_ok d (hd_fragments hp)) \<and>
           export_btn_normal self' = export_btn_normal self \<and>
           error_boxes self' = error_boxes self"
  using assms
proof (induction mtus arbitrary: i frs self r)
  case Nil
  then show ?case by simp
next
  case (Cons m mtus)
  from refragment_spec[of h m frs 0 d "[]"] Cons.prems
  obtain new where new: "refragment h m frs [] = Some (Inr new)" and ok: "hop_ok d new"
    by (auto simp: hop_ok_def)
  define hop where "hop = \<lparr>hd_hop_num = i + 1, hd_mtu = m, hd_fragments = new\<rparr>"
  define self1 where "self1 = create_hop_table (i + 1) m new h fid (append_hop hop self)"
  have step: "process_hops h fid i (m # mtus) frs self = process_hops h fid (i + 1) mtus new self1"
    using new by (simp add: hop_def self1_def Let_def)
  have cr: "current_results self1 = Some (r\<lparr>res_hops := res_hops r @ [hop]\<rparr>)"
    and same: "export_btn_normal self1 = export_btn_normal self" "error_boxes self1 = error_boxes self"
    using Cons.prems(4) by (simp_all add: self1_def create_hop_table_def append_hop_def)
  from Cons.IH[OF _ ok Cons.prems(3) cr, of "i + 1"] Cons.prems(1)
  obtain frs' self' hs where
    run: "process_hops h fid (i + 1) mtus new self1 = Some (Inr frs', self')"
    and cr': "current_results self' = Some (r\<lparr>res_hops := res_hops r @ [hop]\<rparr>\<lparr>res_hops := res_hops (r\<lparr>res_hops := res_hops r @ [hop]\<rparr>) @ hs\<rparr>)"
    and hs: "map hd_mtu hs = mtus" "\<forall>hp\<in>set hs. hop_ok d (hd_fragments hp)"
    and same': "export_btn_normal self' = export_btn_normal self1" "error_boxes self' = error_boxes self1"
    by auto
  show ?case
  proof (intro exI conjI)
    show "process_hops h fid i (m # mtus) frs self = Some (Inr frs', self')"
      using step run by (simp only:)
    show "current_results self' = Some (r\<lparr>res_hops := res_hops r @ hop # hs\<rparr>)"
      using cr' by simp
    show "map hd_mtu (hop # hs) = m # mtus" using hs(1) by (simp add: hop_def)
    show "\<forall>hp\<in>set (hop # hs). hop_ok d (hd_fragments hp)"
      using hs(2) ok by (simp add: hop_def)
    show "export_btn_normal self' = export_btn_normal self" "error_boxes self' = error_boxes self"
      using same same' by simp_all
  qed
qed

section \<open>The validator\<close>

lemma str_int_limits:
  "str_int 20 = ''20''" "str_int 60 = ''60''" "str_int 68 = ''68''" "str_int 65535 = ''65535''"
  by (simp_all add: str_int_def str_nat.simps digit_char_def)

lemma validate_mtus_Inr_iff:
  "validate_mtus AppConfig_default h i mtus = Inr () \<longleftrightarrow>
   (\<forall>m\<in>set mtus. 68 \<le> m \<and> m \<le> 65535 \<and> h + 8 \<le> m)"
  by (induction mtus arbitrary: i) (auto simp: AppConfig_default_def)

lemma validate_mtus_first_error:
  assumes "\<forall>x\<in>set xs. 68 \<le> x \<and> x \<le> 65535 \<and> h + 8 \<le> x"
    and "\<not> (68 \<le> m \<and> m \<le> 65535 \<and> h + 8 \<le> m)"
  shows "validate_mtus AppConfig_default h i (xs @ m # ys) =
     Inl (ValueError (''MTU at hop '' @ str_int (i + int (length xs) + 1) @ '' ('' @ str_int m @
            '' bytes) '' @
          (if m < 68 then ''is below minimum (68 bytes per RFC 791)''
           else if 65535 < m then ''exceeds maximum (65535 bytes)''
           else ''too small for header ('' @ str_int h @ '' bytes) + minimum data (8 bytes)'')))"
  using assms(1)
proof (induction xs arbitrary: i)
  case Nil
  then show ?case using assms(2)
    by (auto simp: AppConfig_default_def mtu_hop_prefix_def str_int_limits)
next
  case (Cons x xs)
  have "validate_mtus AppConfig_default h i ((x # xs) @ m # ys) =
        validate_mtus AppConfig_default h (i + 1) (xs @ m # ys)"
    using Cons.prems by (simp add: AppConfig_default_def)
  also have "i + 1 + int (length xs) + 1 = i + int (length (x # xs)) + 1" by simp
  ultimately show ?case using Cons.IH[of "i + 1"] Cons.prems by simp
qed

lemma validate_Inr_iff:
  "validate_fragmentation_inputs p h mtus = Inr () \<longleftrightarrow>
     20 \<le> p \<and> p \<le> 65535 \<and> 20 \<le> h \<and> h \<le> 60 \<and> h mod 4 = 0 \<and> 0 < p - h \<and> mtus \<noteq> [] \<and>
     (\<forall>m\<in>set mtus. 68 \<le> m \<and> m \<le> 65535 \<and> h + 8 \<le> m)"
proof -
  have "validate_mtus AppConfig_default h 0 mtus = Inr () \<longleftrightarrow>
        (\<forall>m\<in>set mtus. 68 \<le> m \<and> m \<le> 65535 \<and> h + 8 \<le> m)"
    by (rule validate_mtus_Inr_iff)
  moreover have "validate_fragmentation_inputs p h mtus =
     (if 20 \<le> p \<and> p \<le> 65535 \<and> 20 \<le> h \<and> h \<le> 60 \<and> h mod 4 = 0 \<and> 0 < p - h \<and> mtus \<noteq> []
      then validate_mtus AppConfig_default h 0 mtus
      else validate_fragmentation_inputs p h mtus)"
    by (simp add: validate_fragmentation_inputs_def Let_def) (simp add: AppConfig_default_def)
  moreover have "validate_fragmentation_inputs p h mtus \<noteq> Inr ()"
    if "\<not> (20 \<le> p \<and> p \<le> 65535 \<and> 20 \<le> h \<and> h \<le> 60 \<and> h mod 4 = 0 \<and> 0 < p - h \<and> mtus \<noteq> [])"
    using that by (auto simp: validate_fragmentation_inputs_def Let_def AppConfig_default_def)
  ultimately show ?thesis by metis
qed

lemma validate_first_error:
  "(p < 20 \<longrightarrow> validate_fragmentation_inputs p h mtus =
      Inl (ValueError ''Packet size must be at least 20 bytes''))"
  "(20 \<le> p \<and> 65535 < p \<longrightarrow> validate_fragmentation_inputs p h mtus =
      Inl (ValueError ''Packet size cannot exceed 65535 bytes''))"
  "(20 \<le> p \<and> p \<le> 65535 \<and> h < 20 \<longrightarrow> validate_fragmentation_inputs p h mtus =
      Inl (ValueError ''Header size must be at least 20 bytes (RFC 791)''))"
  "(20 \<le> p \<and> p \<le> 65535 \<and> 60 < h \<longrightarrow> validate_fragmentation_inputs p h mtus =
      Inl (ValueError ''Header size cannot exceed 60 bytes (RFC 791)''))"
  "(20 \<le> p \<and> p \<le> 65535 \<and> 20 \<le> h \<and> h \<le> 60 \<and> h mod 4 \<noteq> 0 \<longrightarrow>
      validate_fragmentation_inputs p h mtus =
      Inl (ValueError ''Header size must be a multiple of 4 bytes (RFC 791)''))"
  "(20 \<le> p \<and> p \<le> 65535 \<and> 20 \<le> h \<and> h \<le> 60 \<and> h mod 4 = 0 \<and> p - h < 0 \<longrightarrow>
      validate_fragmentation_inputs p h mtus =
      Inl (ValueError ''Packet size must be greater than header size''))"
  "(20 \<le> p \<and> p \<le> 65535 \<and> 20 \<le> h \<and> h \<le> 60 \<and> h mod 4 = 0 \<and> p - h = 0 \<longrightarrow>
      validate_fragmentation_inputs p h mtus =
      Inl (ValueError ''Packet contains no data (header only)''))"
  "(20 \<le> p \<and> p \<le> 65535 \<and> 20 \<le> h \<and> h \<le> 60 \<and> h mod 4 = 0 \<and> 0 < p - h \<and> mtus = [] \<longrightarrow>
      validate_fragmentation_inputs p h mtus =
      Inl (ValueError ''MTU path cannot be empty''))"
  by (simp_all add: validate_fragmentation_inputs_def Let_def AppConfig_default_def str_int_limits)

lemma validate_first_mtu_error:
  assumes "20 \<le> p" "p \<le> 65535" "20 \<le> h" "h \<le> 60" "h mod 4 = 0" "0 < p - h"
    and "\<forall>x\<in>set xs. 68 \<le> x \<and> x \<le> 65535 \<and> h + 8 \<le> x"
    and "\<not> (68 \<le> m \<and> m \<le> 65535 \<and> h + 8 \<le> m)"
  shows "validate_fragmentation_inputs p h (xs @ m # ys) =
     Inl (ValueError (''MTU at hop '' @ str_int (int (length xs) + 1) @ '' ('' @ str_int m @
            '' bytes) '' @
          (if m < 68 then ''is below minimum (68 bytes per RFC 791)''
           else if 65535 < m then ''exceeds maximum (65535 bytes)''
           else ''too small for header ('' @ str_int h @ '' bytes) + minimum data (8 bytes)'')))"
proof -
  have "validate_fragmentation_inputs p h (xs @ m # ys) =
        validate_mtus AppConfig_default h 0 (xs @ m # ys)"
    using assms(1-6) by (simp add: validate_fragmentation_inputs_def Let_def) (simp add: AppConfig_default_def)
  then show ?thesis using validate_mtus_first_error[OF assms(7,8), of 0 ys] by simp
qed

section \<open>The simulation on validated input\<close>

lemma parse_items_parsed: "parse_items (map Inr xs) = Inr xs"
  by (induction xs) simp_all

lemma validate_inputs_parsed:
  "validate_inputs (Inr p) (Inr h) (map Inr mtus) =
     (if mtus = [] then Inl (reraise (ValueError ''MTU path cannot be empty''))
      else case validate_fragmentation_inputs p h mtus of
             Inl e \<Rightarrow> Inl (reraise e)
           | Inr _ \<Rightarrow> Inr (p, h, mtus))"
  by (simp add: validate_inputs_def parse_items_parsed)

lemma validate_inputs_valid:
  assumes "validate_fragmentation_inputs p h mtus = Inr ()"
  shows "validate_inputs (Inr p) (Inr h) (map Inr mtus) = Inr (p, h, mtus)"
proof -
  have "mtus \<noteq> []" using assms validate_Inr_iff[of p h mtus] by blast
  then show ?thesis using assms by (simp add: validate_inputs_parsed)
qed

lemma validate_inputs_Inr:
  "validate_inputs packet_size_entry header_size_entry mtu_path_entry = Inr (p, h, mtus) \<Longrightarrow>
   validate_fragmentation_inputs p h mtus = Inr ()"
  by (auto simp: validate_inputs_def split: sum.splits if_splits)

lemma validate_inputs_Inl:
  "validate_inputs packet_size_entry header_size_entry mtu_path_entry = Inl err \<Longrightarrow>
   \<exists>msg. err = ValueError msg"
  by (cases err) simp

lemma hop_ok_initial: "0 < d \<Longrightarrow> hop_ok d [(fid, d, 0, 1)]"
  by (simp add: hop_ok_def offset_units_def data_length_def)

lemma run_simulation_valid:
  assumes "validate_fragmentation_inputs p h mtus = Inr ()"
  shows "\<exists>self' hs. run_simulation p h mtus fid now self = Some (Inr (), self') \<and>
           current_results self' = Some
             \<lparr>res_fragment_id = fid, res_original_packet_size = p, res_header_size = h,
              res_mtu_path = mtus, res_hops = hs, res_timestamp = now\<rparr> \<and>
           map hd_mtu hs = mtus \<and> (\<forall>hp\<in>set hs. hop_ok (p - h) (hd_fragments hp)) \<and>
           export_btn_normal self' \<and> error_boxes self' = error_boxes self"
proof -
  define r0 where "r0 = \<lparr>res_fragment_id = fid, res_original_packet_size = p, res_header_size = h,
              res_mtu_path = mtus, res_hops = [], res_timestamp = now\<rparr>"
  define self0 where "self0 = (clear_visualization_area self)\<lparr>current_results := Some r0\<rparr>"
  from assms have v: "p \<le> 65535" "20 \<le> h" "0 < p - h" "\<forall>m\<in>set mtus. h + 8 \<le> m"
    by (simp_all add: validate_Inr_iff)
  have le: "p - h \<le> 65536" using v by simp
  have cr0: "current_results self0 = Some r0" by (simp add: self0_def)
  from process_hops_spec[OF v(4) hop_ok_initial[OF v(3), of fid] le cr0, where fid = fid and i = 0]
  obtain frs' self1 hs where
    run: "process_hops h fid 0 mtus [(fid, p - h, 0, 1)] self0 = Some (Inr frs', self1)"
    and cr: "current_results self1 = Some (r0\<lparr>res_hops := res_hops r0 @ hs\<rparr>)"
    and hs: "map hd_mtu hs = mtus" "\<forall>hp\<in>set hs. hop_ok (p - h) (hd_fragments hp)"
    and same: "export_btn_normal self1 = export_btn_normal self0" "error_boxes self1 = error_boxes self0"
    by blast
  have "run_simulation p h mtus fid now self = Some (Inr (), self1\<lparr>export_btn_normal := True\<rparr>)"
    using run by (simp add: run_simulation_def self0_def r0_def)
  moreover have "current_results (self1\<lparr>export_btn_normal := True\<rparr>) = Some
             \<lparr>res_fragment_id = fid, res_original_packet_size = p, res_header_size = h,
              res_mtu_path = mtus, res_hops = hs, res_timestamp = now\<rparr>"
    using cr by (simp add: r0_def)
  moreover have "error_boxes (self1\<lparr>export_btn_normal := True\<rparr>) = error_boxes self"
    using same by (simp add: self0_def clear_visualization_area_def)
  ultimately show ?thesis using hs by (intro exI[of _ "self1\<lparr>export_btn_normal := True\<rparr>"] exI[of _ hs]) simp
qed

lemma simulate_valid:
  assumes "validate_fragmentation_inputs p h mtus = Inr ()"
  shows "\<exists>self' r. simulate_fragmentation (Inr p) (Inr h) (map Inr mtus) fid now self = Some self' \<and>
           current_results self' = Some r \<and> length (res_hops r) = length mtus \<and>
           map hd_mtu (res_hops r) = mtus \<and>
           (\<forall>hp\<in>set (res_hops r). hop_ok (p - h) (hd_fragments hp)) \<and>
           export_btn_normal self' \<and> error_boxes self' = error_boxes self"
proof -
  from run_simulation_valid[OF assms, of fid now self]
  obtain self' hs where run: "run_simulation p h mtus fid now self = Some (Inr (), self')"
    and cr: "current_results self' = Some
             \<lparr>res_fragment_id = fid, res_original_packet_size = p, res_header_size = h,
              res_mtu_path = mtus, res_hops = hs, res_timestamp = now\<rparr>"
    and hs: "map hd_mtu hs = mtus" "\<forall>hp\<in>set hs. hop_ok (p - h) (hd_fragments hp)"
    and rest: "export_btn_normal self'" "error_boxes self' = error_boxes self"
    by blast
  have "simulate_fragmentation (Inr p) (Inr h) (map Inr mtus) fid now self = Some self'"
    using assms run by (simp add: simulate_fragmentation_def validate_inputs_valid)
  moreover have "length hs = length mtus" using hs(1) by (metis length_map)
  ultimately show ?thesis using cr hs rest by simp
qed

lemma hop_ok_sum: "hop_ok d frs \<Longrightarrow> sum_list (map data_length frs) = d"
  using tiles_sum[of frs 0 d] by (simp add: hop_ok_def)

lemma hop_ok_offset:
  assumes "hop_ok d frs" "d \<le> 65536" "f \<in> set frs"
  shows "offset_units f \<le> 8191"
proof -
  have "offset_units f * 8 + data_length f \<le> d" "0 < data_length f"
    using assms tiles_within[of frs 0 d f] by (simp_all add: hop_ok_def)
  then show ?thesis using assms(2) by linarith
qed

lemma hop_ok_aligned:
  "hop_ok d frs \<Longrightarrow> i + 1 < length frs \<Longrightarrow> data_length (frs ! i) mod 8 = 0"
  using aligned_but_last_nth[of frs i] by (simp add: hop_ok_def)

lemma tiles_increasing:
  assumes "tiles frs a b" "\<forall>f\<in>set frs. 0 < data_length f" "i + 1 < length frs"
  shows "offset_units (frs ! (i + 1)) * 8 = offset_units (frs ! i) * 8 + data_length (frs ! i)"
    and "offset_units (frs ! i) < offset_units (frs ! (i + 1))"
proof -
  show eq: "offset_units (frs ! (i + 1)) * 8 = offset_units (frs ! i) * 8 + data_length (frs ! i)"
    using tiles_nth[OF assms(1), of i] assms(3) by simp
  have "0 < data_length (frs ! i)" using assms(2,3) by simp
  with eq show "offset_units (frs ! i) < offset_units (frs ! (i + 1))" by linarith
qed

lemma fragment_packet_overflow_iff:
  "(\<exists>fo co. fragment_packet d off h mtu fid = Some (Inl (ValueError (offset_overflow_msg fo co)))) \<longleftrightarrow>
   0 < d \<and> h + 8 \<le> mtu \<and>
   (\<exists>k\<ge>0. k * ((mtu - h) div 8 * 8) < d \<and> 8191 < (off + k * ((mtu - h) div 8 * 8)) div 8)"
proof (cases "0 < d \<and> h + 8 \<le> mtu")
  case False
  then have "\<nexists>fo co. fragment_packet d off h mtu fid = Some (Inl (ValueError (offset_overflow_msg fo co)))"
    using guard_messages_distinct(4,5,6)[symmetric]
    by (auto simp: fragment_packet_def)
  then show ?thesis using False by blast
next
  case True
  then have d: "0 < d" and m: "h + 8 \<le> mtu" by simp_all
  define md where "md = (mtu - h) div 8 * 8"
  from fragment_packet_spec[OF d m, of off fid]
  obtain res where res: "fragment_packet d off h mtu fid = Some res"
    and post: "case res of
        Inl e \<Rightarrow> (\<exists>k\<ge>0. k * md < d \<and> 8191 < (off + k * md) div 8) \<and>
                 (\<exists>fo co. e = ValueError (offset_overflow_msg fo co))
      | Inr out \<Rightarrow> (\<forall>k\<ge>0. k * md < d \<longrightarrow> (off + k * md) div 8 \<le> 8191) \<and>
                   loop_post fid md d off out"
    unfolding md_def by blast
  show ?thesis
  proof (cases res)
    case (Inl e)
    then show ?thesis using res post True unfolding md_def by auto
  next
    case (Inr out)
    then have "\<forall>k\<ge>0. k * md < d \<longrightarrow> (off + k * md) div 8 \<le> 8191" using post by simp
    then have "\<not> (\<exists>k\<ge>0. k * md < d \<and> 8191 < (off + k * md) div 8)" by force
    then show ?thesis using res Inr unfolding md_def by simp
  qed
qed

lemma fragment_packet_offsets:
  assumes "fragment_packet d off h mtu fid = Some (Inr frs)" "f \<in> set frs"
  shows "offset_units f \<le> 8191"
  using fragment_packet_Inr(3)[OF assms(1)] assms(2) by (simp add: loop_post_def)

lemma fragment_packet_tiles:
  assumes "fragment_packet d off h mtu fid = Some (Inr frs)"
  shows "tiles frs (off div 8 * 8) (off div 8 * 8 + d)" "\<forall>f\<in>set frs. 0 < data_length f"
    "aligned_but_last frs"
  using fragment_packet_Inr(1,3)[OF assms] by (simp_all add: loop_post_def)

lemma process_hops_returns: "\<exists>res. process_hops h fid i mtus frs self = Some res"
proof (induction mtus arbitrary: i frs self)
  case Nil then show ?case by simp
next
  case (Cons m mtus)
  obtain res where res: "refragment h m frs [] = Some res" using refragment_returns by blast
  show ?case
  proof (cases res)
    case (Inl e) then show ?thesis using res by simp
  next
    case (Inr new) then show ?thesis using res Cons by (simp add: Let_def)
  qed
qed

lemma run_simulation_returns: "\<exists>res. run_simulation p h mtus fid now self = Some res"
proof -
  obtain res where "process_hops h fid 0 mtus [(fid, p - h, 0, 1)]
     ((clear_visualization_area self)\<lparr>current_results := Some
        \<lparr>res_fragment_id = fid, res_original_packet_size = p, res_header_size = h,
         res_mtu_path = mtus, res_hops = [], res_timestamp = now\<rparr>\<rparr>) = Some res"
    using process_hops_returns by blast
  then show ?thesis
    by (cases res) (auto simp: run_simulation_def split: sum.splits)
qed

section \<open>Concrete runs\<close>

text \<open>Decimal texts of the numbers that occur in the runs below.\<close>

lemma str_int_example:
  "str_int 0 = ''0''" "str_int 1 = ''1''" "str_int 2 = ''2''" "str_int 3 = ''3''"
  "str_int 69 = ''69''" "str_int 138 = ''138''" "str_int 552 = ''552''" "str_int 1104 = ''1104''"
  "str_int 572 = ''572''" "str_int 396 = ''396''" "str_int 376 = ''376''"
  "str_int 20 = ''20''" "str_int 27 = ''27''" "str_int 40 = ''40''" "str_int 67 = ''67''"
  "str_int 70000 = ''70000''"
  by (simp_all add: str_int_def str_nat.simps digit_char_def)

lemma validate_1500_20_576: "validate_fragmentation_inputs 1500 20 [576] = Inr ()"
  by (simp add: validate_fragmentation_inputs_def AppConfig_default_def)

lemma fragment_packet_1480_576:
  "fragment_packet 1480 0 20 576 fid =
   Some (Inr [(fid, 552, 0, 1), (fid, 552, 69, 2), (fid, 376, 138, 3)])"
  by (simp add: fragment_packet_def fragment_loop.simps)

lemma validate_1500_20_1020_520: "validate_fragmentation_inputs 1500 20 [1020, 520] = Inr ()"
  by (simp add: validate_fragmentation_inputs_def AppConfig_default_def)

lemma fragment_packet_1480_1020:
  "fragment_packet 1480 0 20 1020 fid = Some (Inr [(fid, 1000, 0, 1), (fid, 480, 125, 2)])"
  by (simp add: fragment_packet_def fragment_loop.simps)

lemma fragment_packet_1000_520:
  "fragment_packet 1000 0 20 520 fid = Some (Inr [(fid, 496, 0, 1), (fid, 496, 62, 2), (fid, 8, 124, 3)])"
  by (simp add: fragment_packet_def fragment_loop.simps)

lemma refragment_1000_480_520:
  "refragment 20 520 [(fid, 1000, 0, 1), (fid, 480, 125, 2)] [] =
   Some (Inr [(fid, 496, 0, 1), (fid, 496, 62, 2), (fid, 8, 124, 3), (fid, 480, 125, 2)])"
  by (simp add: fragment_packet_1000_520)

lemma fragment_packet_69980_65556:
  "fragment_packet 69980 0 20 65556 fid = Some (Inl (ValueError (offset_overflow_msg 8192 65536)))"
  by (simp add: fragment_packet_def fragment_loop.simps)

lemma fragment_packet_16_4:
  "fragment_packet 16 4 20 28 fid = Some (Inr [(fid, 8, 0, 1), (fid, 8, 1, 2)])"
  by (simp add: fragment_packet_def fragment_loop.simps)

lemma str_int_overflow_example:
  "str_int 7 = ''7''" "str_int 8192 = ''8192''" "str_int 65536 = ''65536''"
  "str_int 69980 = ''69980''"
  by (simp_all add: str_int_def str_nat.simps digit_char_def)

lemma run_simulation_70000:
  "run_simulation 70000 20 [70020, 65556] 7 [] app_init =
   Some (Inl (ValueError (''Fragment offset 8192 exceeds maximum (8191). '' @
                          ''Packet too large for fragmentation at offset 65536 bytes.'')),
         \<lparr>current_results = Some
            \<lparr>res_fragment_id = 7, res_original_packet_size = 70000, res_header_size = 20,
             res_mtu_path = [70020, 65556],
             res_hops = [\<lparr>hd_hop_num = 1, hd_mtu = 70020, hd_fragments = [(7, 69980, 0, 1)]\<rparr>],
             res_timestamp = []\<rparr>,
          export_btn_normal = False,
          viz_scroll = [\<lparr>tbl_hop_num = 1, tbl_mtu = 70020,
             tbl_rows = [[''#1'', ''7'', ''70000 B'', ''69980 B'', ''0'', ''0'', ''0 (Last)'']]\<rparr>],
          error_boxes = []\<rparr>)"
  by (simp add: run_simulation_def fragment_packet_69980_65556 offset_overflow_msg_def
      clear_visualization_area_def append_hop_def create_hop_table_def row_data_def mf_flag_def
      app_init_def str_int_example str_int_overflow_example Let_def)

section \<open>The claims\<close>

text \<open>
  \<^bold>\<open>C1\<close> (sequence numbers of a hop are 1, 2, ..., n in list order). The code does not
  do this. The branch that splits a fragment numbers the pieces by
  \<^verbatim>\<open>len(new_fragments) + 1\<close>, but the pass-through branch appends a fragment with the
  sequence number it had in the previous hop. For packet size 1500, header size 20 and MTU
  path 1020, 520 (accepted by the validator) the second hop splits the first fragment into
  three pieces numbered 1, 2, 3 and passes the second fragment through with its old
  number 2: the recorded sequence numbers are 1, 2, 3, 2.
\<close>

theorem sequence_numbers_repeat_1500_20_1020_520:
  "validate_fragmentation_inputs 1500 20 [1020, 520] = Inr () \<and>
   map_option (map hd_fragments \<circ> res_hops)
     (Option.bind (simulate_fragmentation (Inr 1500) (Inr 20) [Inr 1020, Inr 520] fid now self) current_results) =
   Some [[(fid, 1000, 0, 1), (fid, 480, 125, 2)],
         [(fid, 496, 0, 1), (fid, 496, 62, 2), (fid, 8, 124, 3), (fid, 480, 125, 2)]] \<and>
   map_option (map (map sequence \<circ> hd_fragments) \<circ> res_hops)
     (Option.bind (simulate_fragmentation (Inr 1500) (Inr 20) [Inr 1020, Inr 520] fid now self) current_results) =
   Some [[1, 2], [1, 2, 3, 2]]"
  by (simp add: simulate_fragmentation_def validate_inputs_def validate_1500_20_1020_520
      run_simulation_def fragment_packet_1480_1020 fragment_packet_1000_520
      clear_visualization_area_def append_hop_def create_hop_table_def Let_def sequence_def)

text \<open>
  \<^bold>\<open>C9\<close> (worked example). For packet size 1500, header size 20 and the MTU path 576 the
  simulation completes, records exactly one hop with the three fragments of data lengths
  552, 552, 376 at offsets 0, 69, 138 (in units of 8 bytes), enables the export button and
  shows one table whose rows carry the More-Fragments flags 1, 1, 0.
\<close>

theorem worked_example_1500_20_576:
  "simulate_fragmentation (Inr 1500) (Inr 20) [Inr 576] fid now self =
     Some (self\<lparr>current_results := Some
             \<lparr>res_fragment_id = fid, res_original_packet_size = 1500, res_header_size = 20,
              res_mtu_path = [576],
              res_hops = [\<lparr>hd_hop_num = 1, hd_mtu = 576,
                           hd_fragments = [(fid, 552, 0, 1), (fid, 552, 69, 2), (fid, 376, 138, 3)]\<rparr>],
              res_timestamp = now\<rparr>,
           export_btn_normal := True,
           viz_scroll := [\<lparr>tbl_hop_num = 1, tbl_mtu = 576,
              tbl_rows = [[''#1'', str_int fid, ''572 B'', ''552 B'', ''0'', ''0'', ''1 (More)''],
                          [''#2'', str_int fid, ''572 B'', ''552 B'', ''552'', ''69'', ''1 (More)''],
                          [''#3'', str_int fid, ''396 B'', ''376 B'', ''1104'', ''138'', ''0 (Last)'']]\<rparr>]\<rparr>)
   \<and> map (\<lambda>idx. mf_flag idx [(fid, 552, 0, 1), (fid, 552, 69, 2), (fid, 376, 138, 3)]) [0, 1, 2]
       = [True, True, False]"
  by (simp add: simulate_fragmentation_def validate_inputs_def validate_1500_20_576
      run_simulation_def fragment_packet_1480_576
      clear_visualization_area_def append_hop_def create_hop_table_def row_data_def mf_flag_def
      str_int_example Let_def)

text \<open>
  \<^bold>\<open>C10\<close> (guards of \<^verbatim>\<open>fragment_packet\<close>). A call with negative data size, with data
  size 0, or with an MTU below header size plus 8 returns a \<^verbatim>\<open>ValueError\<close> and never a
  fragment list; the guards are tried in this order, each has its own message, and the three
  messages are pairwise distinct.
\<close>

theorem fragment_packet_guards:
  "(data_size < 0 \<longrightarrow>
      fragment_packet data_size offset header_size mtu fid =
        Some (Inl (ValueError ''Data size cannot be negative''))) \<and>
   (data_size = 0 \<longrightarrow>
      fragment_packet data_size offset header_size mtu fid =
        Some (Inl (ValueError ''No data to fragment''))) \<and>
   (0 < data_size \<and> mtu < header_size + 8 \<longrightarrow>
      fragment_packet data_size offset header_size mtu fid =
        Some (Inl (ValueError (''MTU '' @ str_int mtu @ '' too small for header '' @
                               str_int header_size @ '' + minimum data (8)'')))) \<and>
   (data_size < 0 \<or> data_size = 0 \<or> mtu < header_size + 8 \<longrightarrow>
      (\<exists>msg. fragment_packet data_size offset header_size mtu fid = Some (Inl (ValueError msg))) \<and>
      (\<forall>frs. fragment_packet data_size offset header_size mtu fid \<noteq> Some (Inr frs))) \<and>
   distinct [''Data size cannot be negative'', ''No data to fragment'',
             ''MTU '' @ str_int mtu @ '' too small for header '' @ str_int header_size @
             '' + minimum data (8)'']"
  by (auto simp: fragment_packet_def mtu_too_small_msg_def)

text \<open>The guards at data size -1, at data size 0, and at MTU 27 with header size 20.\<close>

theorem fragment_packet_guards_witness:
  "(- 1 :: int) < 0 \<and>
   fragment_packet (- 1) 0 20 1500 7 = Some (Inl (ValueError ''Data size cannot be negative'')) \<and>
   fragment_packet 0 0 20 1500 7 = Some (Inl (ValueError ''No data to fragment'')) \<and>
   (0 :: int) < 100 \<and> (27 :: int) < 20 + 8 \<and>
   fragment_packet 100 0 20 27 7 =
     Some (Inl (ValueError ''MTU 27 too small for header 20 + minimum data (8)''))"
  using fragment_packet_guards[of "- 1" 0 20 1500 7] fragment_packet_guards[of 0 0 20 1500 7]
    fragment_packet_guards[of 100 0 20 27 7]
  by (simp add: str_int_example)

text \<open>
  \<^bold>\<open>C5\<close> (validator contract). \<^verbatim>\<open>validate_fragmentation_inputs\<close> is a function of its
  three arguments alone. It accepts exactly when the packet size is in 20..65535, the header
  size is in 20..60 and a multiple of 4, the packet is larger than its header, the MTU path
  is not empty and every MTU is in 68..65535 and at least header size plus 8. Otherwise it
  raises the error of the first rule violated, in this order; for the MTU path that is the
  first hop with a bad MTU, named by its position counted from 1, \<open>xs\<close> being the hops
  before it.
\<close>

theorem validator_contract:
  "(validate_fragmentation_inputs p h mtus = Inr () \<longleftrightarrow>
      20 \<le> p \<and> p \<le> 65535 \<and> 20 \<le> h \<and> h \<le> 60 \<and> h mod 4 = 0 \<and> 0 < p - h \<and> mtus \<noteq> [] \<and>
      (\<forall>m\<in>set mtus. 68 \<le> m \<and> m \<le> 65535 \<and> h + 8 \<le> m)) \<and>
   (p < 20 \<longrightarrow> validate_fragmentation_inputs p h mtus =
      Inl (ValueError ''Packet size must be at least 20 bytes'')) \<and>
   (20 \<le> p \<and> 65535 < p \<longrightarrow> validate_fragmentation_inputs p h mtus =
      Inl (ValueError ''Packet size cannot exceed 65535 bytes'')) \<and>
   (20 \<le> p \<and> p \<le> 65535 \<and> h < 20 \<longrightarrow> validate_fragmentation_inputs p h mtus =
      Inl (ValueError ''Header size must be at least 20 bytes (RFC 791)'')) \<and>
   (20 \<le> p \<and> p \<le> 65535 \<and> 60 < h \<longrightarrow> validate_fragmentation_inputs p h mtus =
      Inl (ValueError ''Header size cannot exceed 60 bytes (RFC 791)'')) \<and>
   (20 \<le> p \<and> p \<le> 65535 \<and> 20 \<le> h \<and> h \<le> 60 \<and> h mod 4 \<noteq> 0 \<longrightarrow>
      validate_fragmentation_inputs p h mtus =
      Inl (ValueError ''Header size must be a multiple of 4 bytes (RFC 791)'')) \<and>
   (20 \<le> p \<and> p \<le> 65535 \<and> 20 \<le> h \<and> h \<le> 60 \<and> h mod 4 = 0 \<and> p - h < 0 \<longrightarrow>
      validate_fragmentation_inputs p h mtus =
      Inl (ValueError ''Packet size must be greater than header size'')) \<and>
   (20 \<le> p \<and> p \<le> 65535 \<and> 20 \<le> h \<and> h \<le> 60 \<and> h mod 4 = 0 \<and> p - h = 0 \<longrightarrow>
      validate_fragmentation_inputs p h mtus =
      Inl (ValueError ''Packet contains no data (header only)'')) \<and>
   (20 \<le> p \<and> p \<le> 65535 \<and> 20 \<le> h \<and> h \<le> 60 \<and> h mod 4 = 0 \<and> 0 < p - h \<and> mtus = [] \<longrightarrow>
      validate_fragmentation_inputs p h mtus =
      Inl (ValueError ''MTU path cannot be empty'')) \<and>
   (20 \<le> p \<and> p \<le> 65535 \<and> 20 \<le> h \<and> h \<le> 60 \<and> h mod 4 = 0 \<and> 0 < p - h \<and>
    mtus = xs @ m # ys \<and> (\<forall>x\<in>set xs. 68 \<le> x \<and> x \<le> 65535 \<and> h + 8 \<le> x) \<and>
    \<not> (68 \<le> m \<and> m \<le> 65535 \<and> h + 8 \<le> m) \<longrightarrow>
      validate_fragmentation_inputs p h mtus =
      Inl (ValueError (''MTU at hop '' @ str_int (int (length xs) + 1) @ '' ('' @ str_int m @
             '' bytes) '' @
           (if m < 68 then ''is below minimum (68 bytes per RFC 791)''
            else if 65535 < m then ''exceeds maximum (65535 bytes)''
            else ''too small for header ('' @ str_int h @
                 '' bytes) + minimum data (8 bytes)''))))"
proof -
  have "20 \<le> p \<and> p \<le> 65535 \<and> 20 \<le> h \<and> h \<le> 60 \<and> h mod 4 = 0 \<and> 0 < p - h \<and>
    mtus = xs @ m # ys \<and> (\<forall>x\<in>set xs. 68 \<le> x \<and> x \<le> 65535 \<and> h + 8 \<le> x) \<and>
    \<not> (68 \<le> m \<and> m \<le> 65535 \<and> h + 8 \<le> m) \<longrightarrow>
      validate_fragmentation_inputs p h mtus =
      Inl (ValueError (''MTU at hop '' @ str_int (int (length xs) + 1) @ '' ('' @ str_int m @
             '' bytes) '' @
           (if m < 68 then ''is below minimum (68 bytes per RFC 791)''
            else if 65535 < m then ''exceeds maximum (65535 bytes)''
            else ''too small for header ('' @ str_int h @
                 '' bytes) + minimum data (8 bytes)'')))"
  proof (intro impI)
    assume a: "20 \<le> p \<and> p \<le> 65535 \<and> 20 \<le> h \<and> h \<le> 60 \<and> h mod 4 = 0 \<and> 0 < p - h \<and>
      mtus = xs @ m # ys \<and> (\<forall>x\<in>set xs. 68 \<le> x \<and> x \<le> 65535 \<and> h + 8 \<le> x) \<and>
      \<not> (68 \<le> m \<and> m \<le> 65535 \<and> h + 8 \<le> m)"
    then have "mtus = xs @ m # ys" by (elim conjE)
    moreover have "validate_fragmentation_inputs p h (xs @ m # ys) =
      Inl (ValueError (''MTU at hop '' @ str_int (int (length xs) + 1) @ '' ('' @ str_int m @
             '' bytes) '' @
           (if m < 68 then ''is below minimum (68 bytes per RFC 791)''
            else if 65535 < m then ''exceeds maximum (65535 bytes)''
            else ''too small for header ('' @ str_int h @
                 '' bytes) + minimum data (8 bytes)'')))"
      using a by (intro validate_first_mtu_error) (elim conjE, assumption)+
    ultimately show "validate_fragmentation_inputs p h mtus =
      Inl (ValueError (''MTU at hop '' @ str_int (int (length xs) + 1) @ '' ('' @ str_int m @
             '' bytes) '' @
           (if m < 68 then ''is below minimum (68 bytes per RFC 791)''
            else if 65535 < m then ''exceeds maximum (65535 bytes)''
            else ''too small for header ('' @ str_int h @
                 '' bytes) + minimum data (8 bytes)'')))"
      by (simp only:)
  qed
  then show ?thesis
    by (intro conjI) (rule validate_Inr_iff validate_first_error | assumption)+
qed

text \<open>An accepted input, and one rejected input for every rule.\<close>

theorem validator_contract_witness:
  "validate_fragmentation_inputs 1500 20 [1500, 576, 1500] = Inr () \<and>
   validate_fragmentation_inputs 19 20 [1500] =
     Inl (ValueError ''Packet size must be at least 20 bytes'') \<and>
   validate_fragmentation_inputs 65536 20 [1500] =
     Inl (ValueError ''Packet size cannot exceed 65535 bytes'') \<and>
   validate_fragmentation_inputs 1500 16 [1500] =
     Inl (ValueError ''Header size must be at least 20 bytes (RFC 791)'') \<and>
   validate_fragmentation_inputs 1500 64 [1500] =
     Inl (ValueError ''Header size cannot exceed 60 bytes (RFC 791)'') \<and>
   validate_fragmentation_inputs 1500 22 [1500] =
     Inl (ValueError ''Header size must be a multiple of 4 bytes (RFC 791)'') \<and>
   validate_fragmentation_inputs 20 24 [1500] =
     Inl (ValueError ''Packet size must be greater than header size'') \<and>
   validate_fragmentation_inputs 20 20 [68] =
     Inl (ValueError ''Packet contains no data (header only)'') \<and>
   validate_fragmentation_inputs 1500 20 [] =
     Inl (ValueError ''MTU path cannot be empty'') \<and>
   validate_fragmentation_inputs 1500 20 [1500, 40, 70000] =
     Inl (ValueError ''MTU at hop 2 (40 bytes) is below minimum (68 bytes per RFC 791)'') \<and>
   validate_fragmentation_inputs 1500 20 [70000] =
     Inl (ValueError ''MTU at hop 1 (70000 bytes) exceeds maximum (65535 bytes)'') \<and>
   validate_fragmentation_inputs 1500 60 [68, 68, 67] =
     Inl (ValueError ''MTU at hop 3 (67 bytes) is below minimum (68 bytes per RFC 791)'')"
proof -
  have "validate_fragmentation_inputs 1500 20 [1500, 576, 1500] = Inr ()"
    using validator_contract[of 1500 20 "[1500, 576, 1500]" "[]" 0 "[]"] by simp
  moreover have "validate_fragmentation_inputs 19 20 [1500] =
      Inl (ValueError ''Packet size must be at least 20 bytes'')"
    using validator_contract[of 19 20 "[1500]" "[]" 0 "[]"] by simp
  moreover have "validate_fragmentation_inputs 65536 20 [1500] =
      Inl (ValueError ''Packet size cannot exceed 65535 bytes'')"
    using validator_contract[of 65536 20 "[1500]" "[]" 0 "[]"] by simp
  moreover have "validate_fragmentation_inputs 1500 16 [1500] =
      Inl (ValueError ''Header size must be at least 20 bytes (RFC 791)'')"
    using validator_contract[of 1500 16 "[1500]" "[]" 0 "[]"] by simp
  moreover have "validate_fragmentation_inputs 1500 64 [1500] =
      Inl (ValueError ''Header size cannot exceed 60 bytes (RFC 791)'')"
    using validator_contract[of 1500 64 "[1500]" "[]" 0 "[]"] by simp
  moreover have "validate_fragmentation_inputs 1500 22 [1500] =
      Inl (ValueError ''Header size must be a multiple of 4 bytes (RFC 791)'')"
    using validator_contract[of 1500 22 "[1500]" "[]" 0 "[]"] by simp
  moreover have "validate_fragmentation_inputs 20 24 [1500] =
      Inl (ValueError ''Packet size must be greater than header size'')"
    using validator_contract[of 20 24 "[1500]" "[]" 0 "[]"] by simp
  moreover have "validate_fragmentation_inputs 20 20 [68] =
      Inl (ValueError ''Packet contains no data (header only)'')"
    using validator_contract[of 20 20 "[68]" "[]" 0 "[]"] by simp
  moreover have "validate_fragmentation_inputs 1500 20 [] =
      Inl (ValueError ''MTU path cannot be empty'')"
    using validator_contract[of 1500 20 "[]" "[]" 0 "[]"] by simp
  moreover have "validate_fragmentation_inputs 1500 20 [1500, 40, 70000] =
      Inl (ValueError ''MTU at hop 2 (40 bytes) is below minimum (68 bytes per RFC 791)'')"
    using validator_contract[of 1500 20 "[1500, 40, 70000]" "[1500]" 40 "[70000]"]
    by (simp add: str_int_example)
  moreover have "validate_fragmentation_inputs 1500 20 [70000] =
      Inl (ValueError ''MTU at hop 1 (70000 bytes) exceeds maximum (65535 bytes)'')"
    using validator_contract[of 1500 20 "[70000]" "[]" 70000 "[]"]
    by (simp add: str_int_example)
  moreover have "validate_fragmentation_inputs 1500 60 [68, 68, 67] =
      Inl (ValueError ''MTU at hop 3 (67 bytes) is below minimum (68 bytes per RFC 791)'')"
    using validator_contract[of 1500 60 "[68, 68, 67]" "[68, 68]" 67 "[]"]
    by (simp add: str_int_example)
  ultimately show ?thesis by (intro conjI)
qed

text \<open>
  \<^bold>\<open>C3\<close> (data conservation). A call of \<^verbatim>\<open>fragment_packet\<close> that returns a list
  returns fragments whose data lengths add up to its data size; one hop of the simulation,
  when it completes, keeps the sum of the data lengths of the list it started from; and for
  every input the validator accepts the simulation completes, records one hop per MTU, and
  the data lengths of every hop add up to packet size minus header size, hence to the sum of
  the hop before.
\<close>

theorem data_conservation:
  "(fragment_packet data_size offset header_size mtu fid = Some (Inr frs) \<longrightarrow>
      sum_list (map data_length frs) = data_size) \<and>
   (refragment header_size mtu fragments [] = Some (Inr new_fragments) \<longrightarrow>
      sum_list (map data_length new_fragments) = sum_list (map data_length fragments)) \<and>
   (validate_fragmentation_inputs p h mtu_path = Inr () \<longrightarrow>
      (\<exists>self' r. simulate_fragmentation (Inr p) (Inr h) (map Inr mtu_path) fid now self = Some self' \<and>
         current_results self' = Some r \<and> length (res_hops r) = length mtu_path \<and>
         (\<forall>k<length (res_hops r).
            sum_list (map data_length (hd_fragments (res_hops r ! k))) = p - h \<and>
            (0 < k \<longrightarrow> sum_list (map data_length (hd_fragments (res_hops r ! k))) =
                        sum_list (map data_length (hd_fragments (res_hops r ! (k - 1))))))))"
proof (intro conjI impI)
  assume "fragment_packet data_size offset header_size mtu fid = Some (Inr frs)"
  then show "sum_list (map data_length frs) = data_size" by (rule fragment_packet_sum)
next
  assume "refragment header_size mtu fragments [] = Some (Inr new_fragments)"
  from refragment_sum[OF this]
  show "sum_list (map data_length new_fragments) = sum_list (map data_length fragments)" by simp
next
  assume "validate_fragmentation_inputs p h mtu_path = Inr ()"
  from simulate_valid[OF this, of fid now self]
  obtain self' r where run: "simulate_fragmentation (Inr p) (Inr h) (map Inr mtu_path) fid now self = Some self'"
    "current_results self' = Some r" "length (res_hops r) = length mtu_path"
    and ok: "\<forall>hp\<in>set (res_hops r). hop_ok (p - h) (hd_fragments hp)"
    by blast
  have "sum_list (map data_length (hd_fragments (res_hops r ! k))) = p - h"
    if "k < length (res_hops r)" for k
    using ok that by (simp add: hop_ok_sum)
  then have "\<forall>k<length (res_hops r).
            sum_list (map data_length (hd_fragments (res_hops r ! k))) = p - h \<and>
            (0 < k \<longrightarrow> sum_list (map data_length (hd_fragments (res_hops r ! k))) =
                        sum_list (map data_length (hd_fragments (res_hops r ! (k - 1)))))"
    by (simp add: less_imp_diff_less)
  with run show "\<exists>self' r. simulate_fragmentation (Inr p) (Inr h) (map Inr mtu_path) fid now self = Some self' \<and>
         current_results self' = Some r \<and> length (res_hops r) = length mtu_path \<and>
         (\<forall>k<length (res_hops r).
            sum_list (map data_length (hd_fragments (res_hops r ! k))) = p - h \<and>
            (0 < k \<longrightarrow> sum_list (map data_length (hd_fragments (res_hops r ! k))) =
                        sum_list (map data_length (hd_fragments (res_hops r ! (k - 1))))))"
    by blast
qed

text \<open>The example call of the source's docstring, the second hop of the path 1020, 520,
  and the whole simulation of that path for a packet of 1500 bytes.\<close>

theorem data_conservation_witness:
  "fragment_packet 1480 0 20 576 7 =
     Some (Inr [(7, 552, 0, 1), (7, 552, 69, 2), (7, 376, 138, 3)]) \<and>
   sum_list (map data_length [(7, 552, 0, 1), (7, 552, 69, 2), (7, 376, 138, 3)]) = 1480 \<and>
   refragment 20 520 [(7, 1000, 0, 1), (7, 480, 125, 2)] [] =
     Some (Inr [(7, 496, 0, 1), (7, 496, 62, 2), (7, 8, 124, 3), (7, 480, 125, 2)]) \<and>
   sum_list (map data_length [(7, 496, 0, 1), (7, 496, 62, 2), (7, 8, 124, 3), (7, 480, 125, 2)]) =
     sum_list (map data_length [(7, 1000, 0, 1), (7, 480, 125, 2)]) \<and>
   validate_fragmentation_inputs 1500 20 [1020, 520] = Inr () \<and>
   (\<exists>self' r. simulate_fragmentation (Inr 1500) (Inr 20) (map Inr [1020, 520]) 7 [] app_init = Some self' \<and>
      current_results self' = Some r \<and> length (res_hops r) = length [1020, 520 :: int] \<and>
      (\<forall>k<length (res_hops r).
         sum_list (map data_length (hd_fragments (res_hops r ! k))) = 1500 - 20 \<and>
         (0 < k \<longrightarrow> sum_list (map data_length (hd_fragments (res_hops r ! k))) =
                     sum_list (map data_length (hd_fragments (res_hops r ! (k - 1)))))))"
proof -
  have "sum_list (map data_length [(7, 552, 0, 1), (7, 552, 69, 2), (7, 376, 138, 3)]) = 1480"
    using data_conservation[where data_size = 1480 and offset = 0 and header_size = 20
        and mtu = 576 and fid = 7 and frs = "[(7, 552, 0, 1), (7, 552, 69, 2), (7, 376, 138, 3)]"]
      fragment_packet_1480_576[of 7] by blast
  moreover have
    "sum_list (map data_length [(7, 496, 0, 1), (7, 496, 62, 2), (7, 8, 124, 3), (7, 480, 125, 2)]) =
     sum_list (map data_length [(7, 1000, 0, 1), (7, 480, 125, 2)])"
    using data_conservation[where header_size = 20 and mtu = 520
        and fragments = "[(7, 1000, 0, 1), (7, 480, 125, 2)]"
        and new_fragments = "[(7, 496, 0, 1), (7, 496, 62, 2), (7, 8, 124, 3), (7, 480, 125, 2)]"]
      refragment_1000_480_520[of 7] by blast
  moreover have "\<exists>self' r. simulate_fragmentation (Inr 1500) (Inr 20) (map Inr [1020, 520]) 7 [] app_init = Some self' \<and>
      current_results self' = Some r \<and> length (res_hops r) = length [1020, 520 :: int] \<and>
      (\<forall>k<length (res_hops r).
         sum_list (map data_length (hd_fragments (res_hops r ! k))) = 1500 - 20 \<and>
         (0 < k \<longrightarrow> sum_list (map data_length (hd_fragments (res_hops r ! k))) =
                     sum_list (map data_length (hd_fragments (res_hops r ! (k - 1))))))"
    using data_conservation[where p = 1500 and h = 20 and mtu_path = "[1020, 520]" and fid = 7
        and now = "[]" and self = app_init]
      validate_1500_20_1020_520 by blast
  ultimately show ?thesis
    using fragment_packet_1480_576[of 7] refragment_1000_480_520[of 7] validate_1500_20_1020_520
    by (intro conjI)
qed

text \<open>
  \<^bold>\<open>C4\<close> (offset bound). Every fragment of a list that \<^verbatim>\<open>fragment_packet\<close> returns has
  an offset field of at most 8191. The call always returns, and it raises the
  offset-overflow error exactly when its guards pass and some chunk starts at a byte offset
  whose eighth (rounded down) exceeds 8191; the chunks start at \<open>offset + k * max_data\<close> for
  \<open>k = 0, 1, ...\<close> while \<open>k * max_data < data_size\<close>, with
  \<open>max_data = (mtu - header_size) div 8 * 8\<close>. Then the result is the error and no list.
  For every input the validator accepts the simulation completes and every fragment of
  every recorded hop has an offset field of at most 8191.
\<close>

theorem offset_bound:
  "(fragment_packet data_size offset header_size mtu fid = Some (Inr frs) \<longrightarrow>
      (\<forall>f\<in>set frs. offset_units f \<le> 8191)) \<and>
   (\<exists>res. fragment_packet data_size offset header_size mtu fid = Some res) \<and>
   ((\<exists>fo co. fragment_packet data_size offset header_size mtu fid =
              Some (Inl (ValueError (offset_overflow_msg fo co)))) \<longleftrightarrow>
    0 < data_size \<and> header_size + 8 \<le> mtu \<and>
    (\<exists>k\<ge>0. k * ((mtu - header_size) div 8 * 8) < data_size \<and>
           8191 < (offset + k * ((mtu - header_size) div 8 * 8)) div 8)) \<and>
   (validate_fragmentation_inputs p h mtu_path = Inr () \<longrightarrow>
      (\<exists>self' r. simulate_fragmentation (Inr p) (Inr h) (map Inr mtu_path) fid now self = Some self' \<and>
         current_results self' = Some r \<and> length (res_hops r) = length mtu_path \<and>
         (\<forall>hp\<in>set (res_hops r). \<forall>f\<in>set (hd_fragments hp). offset_units f \<le> 8191)))"
proof (intro conjI impI)
  assume "fragment_packet data_size offset header_size mtu fid = Some (Inr frs)"
  then show "\<forall>f\<in>set frs. offset_units f \<le> 8191" using fragment_packet_offsets by blast
next
  show "\<exists>res. fragment_packet data_size offset header_size mtu fid = Some res"
    by (rule fragment_packet_returns)
next
  show "(\<exists>fo co. fragment_packet data_size offset header_size mtu fid =
              Some (Inl (ValueError (offset_overflow_msg fo co)))) \<longleftrightarrow>
    0 < data_size \<and> header_size + 8 \<le> mtu \<and>
    (\<exists>k\<ge>0. k * ((mtu - header_size) div 8 * 8) < data_size \<and>
           8191 < (offset + k * ((mtu - header_size) div 8 * 8)) div 8)"
    by (rule fragment_packet_overflow_iff)
next
  assume v: "validate_fragmentation_inputs p h mtu_path = Inr ()"
  from simulate_valid[OF this, of fid now self]
  obtain self' r where run: "simulate_fragmentation (Inr p) (Inr h) (map Inr mtu_path) fid now self = Some self'"
    "current_results self' = Some r" "length (res_hops r) = length mtu_path"
    and ok: "\<forall>hp\<in>set (res_hops r). hop_ok (p - h) (hd_fragments hp)"
    by blast
  have "p - h \<le> 65536" using v by (simp add: validate_Inr_iff)
  then have "\<forall>hp\<in>set (res_hops r). \<forall>f\<in>set (hd_fragments hp). offset_units f \<le> 8191"
    using ok hop_ok_offset by blast
  with run show "\<exists>self' r. simulate_fragmentation (Inr p) (Inr h) (map Inr mtu_path) fid now self = Some self' \<and>
         current_results self' = Some r \<and> length (res_hops r) = length mtu_path \<and>
         (\<forall>hp\<in>set (res_hops r). \<forall>f\<in>set (hd_fragments hp). offset_units f \<le> 8191)"
    by blast
qed

text \<open>A call that returns a list, a call whose second chunk would start at byte 65536
  (offset field 8192), and the simulation of the path 1020, 520.\<close>

theorem offset_bound_witness:
  "fragment_packet 1480 0 20 576 7 =
     Some (Inr [(7, 552, 0, 1), (7, 552, 69, 2), (7, 376, 138, 3)]) \<and>
   list_all (\<lambda>f. offset_units f \<le> 8191) [(7, 552, 0, 1), (7, 552, 69, 2), (7, 376, 138, 3)] \<and>
   (0 :: int) < 69980 \<and> (20 :: int) + 8 \<le> 65556 \<and>
   (1 :: int) * ((65556 - 20) div 8 * 8) < 69980 \<and>
   (8191 :: int) < (0 + 1 * ((65556 - 20) div 8 * 8)) div 8 \<and>
   (\<exists>fo co. fragment_packet 69980 0 20 65556 7 =
              Some (Inl (ValueError (offset_overflow_msg fo co)))) \<and>
   validate_fragmentation_inputs 1500 20 [1020, 520] = Inr () \<and>
   (\<exists>self' r. simulate_fragmentation (Inr 1500) (Inr 20) (map Inr [1020, 520]) 7 [] app_init = Some self' \<and>
      current_results self' = Some r \<and> length (res_hops r) = length [1020, 520 :: int] \<and>
      (\<forall>hp\<in>set (res_hops r). \<forall>f\<in>set (hd_fragments hp). offset_units f \<le> 8191))"
proof -
  have "list_all (\<lambda>f. offset_units f \<le> 8191) [(7, 552, 0, 1), (7, 552, 69, 2), (7, 376, 138, 3)]"
    using offset_bound[where data_size = 1480 and offset = 0 and header_size = 20
        and mtu = 576 and fid = 7 and frs = "[(7, 552, 0, 1), (7, 552, 69, 2), (7, 376, 138, 3)]"]
      fragment_packet_1480_576[of 7] by (simp add: list_all_iff)
  moreover have k: "(0 :: int) \<le> 1 \<and> (1 :: int) * ((65556 - 20) div 8 * 8) < 69980 \<and>
      (8191 :: int) < (0 + 1 * ((65556 - 20) div 8 * 8)) div 8" by simp
  moreover have "\<exists>fo co. fragment_packet 69980 0 20 65556 7 =
              Some (Inl (ValueError (offset_overflow_msg fo co)))"
  proof -
    have "(0 :: int) < 69980 \<and> (20 :: int) + 8 \<le> 65556 \<and>
      (\<exists>k\<ge>0 :: int. k * ((65556 - 20) div 8 * 8) < 69980 \<and>
             8191 < (0 + k * ((65556 - 20) div 8 * 8)) div 8)"
      using k by (intro conjI exI[of _ 1]) simp_all
    then show ?thesis
      using offset_bound[where data_size = 69980 and offset = 0 and header_size = 20
        and mtu = 65556 and fid = 7 and frs = "[]" and p = 0 and h = 0 and mtu_path = "[]"
        and now = "[]" and self = app_init]
      by (elim conjE) (simp only:)
  qed
  moreover have "\<exists>self' r. simulate_fragmentation (Inr 1500) (Inr 20) (map Inr [1020, 520]) 7 [] app_init = Some self' \<and>
      current_results self' = Some r \<and> length (res_hops r) = length [1020, 520 :: int] \<and>
      (\<forall>hp\<in>set (res_hops r). \<forall>f\<in>set (hd_fragments hp). offset_units f \<le> 8191)"
    using offset_bound[where p = 1500 and h = 20 and mtu_path = "[1020, 520]" and fid = 7
        and now = "[]" and self = app_init]
      validate_1500_20_1020_520 by blast
  ultimately show ?thesis
    using fragment_packet_1480_576[of 7] validate_1500_20_1020_520 by simp
qed

text \<open>
  \<^bold>\<open>C6\<close> (alignment). In a list returned by \<^verbatim>\<open>fragment_packet\<close>, and in the fragment
  list of every hop recorded by the simulation of an input the validator accepts (the
  simulation completes and records one hop per MTU), every fragment but the last of the
  list has a data length that is a multiple of 8.
\<close>

theorem alignment:
  "(fragment_packet data_size offset header_size mtu fid = Some (Inr frs) \<longrightarrow>
      (\<forall>i. i + 1 < length frs \<longrightarrow> data_length (frs ! i) mod 8 = 0)) \<and>
   (validate_fragmentation_inputs p h mtu_path = Inr () \<longrightarrow>
      (\<exists>self' r. simulate_fragmentation (Inr p) (Inr h) (map Inr mtu_path) fid now self = Some self' \<and>
         current_results self' = Some r \<and> length (res_hops r) = length mtu_path \<and>
         (\<forall>hp\<in>set (res_hops r). \<forall>i. i + 1 < length (hd_fragments hp) \<longrightarrow>
            data_length (hd_fragments hp ! i) mod 8 = 0)))"
proof (intro conjI impI)
  assume "fragment_packet data_size offset header_size mtu fid = Some (Inr frs)"
  from fragment_packet_tiles(3)[OF this]
  show "\<forall>i. i + 1 < length frs \<longrightarrow> data_length (frs ! i) mod 8 = 0"
    using aligned_but_last_nth[of frs] by simp
next
  assume "validate_fragmentation_inputs p h mtu_path = Inr ()"
  from simulate_valid[OF this, of fid now self]
  obtain self' r where run: "simulate_fragmentation (Inr p) (Inr h) (map Inr mtu_path) fid now self = Some self'"
    "current_results self' = Some r" "length (res_hops r) = length mtu_path"
    and ok: "\<forall>hp\<in>set (res_hops r). hop_ok (p - h) (hd_fragments hp)"
    by blast
  have "\<forall>hp\<in>set (res_hops r). \<forall>i. i + 1 < length (hd_fragments hp) \<longrightarrow>
            data_length (hd_fragments hp ! i) mod 8 = 0"
    using ok hop_ok_aligned by blast
  with run show "\<exists>self' r. simulate_fragmentation (Inr p) (Inr h) (map Inr mtu_path) fid now self = Some self' \<and>
         current_results self' = Some r \<and> length (res_hops r) = length mtu_path \<and>
         (\<forall>hp\<in>set (res_hops r). \<forall>i. i + 1 < length (hd_fragments hp) \<longrightarrow>
            data_length (hd_fragments hp ! i) mod 8 = 0)"
    by blast
qed

text \<open>The example call of the docstring (its first two fragments carry 552 bytes) and the
  simulation of the path 1020, 520.\<close>

theorem alignment_witness:
  "fragment_packet 1480 0 20 576 7 =
     Some (Inr [(7, 552, 0, 1), (7, 552, 69, 2), (7, 376, 138, 3)]) \<and>
   data_length ([(7, 552, 0, 1), (7, 552, 69, 2), (7, 376, 138, 3)] ! 0) mod 8 = 0 \<and>
   data_length ([(7, 552, 0, 1), (7, 552, 69, 2), (7, 376, 138, 3)] ! 1) mod 8 = 0 \<and>
   validate_fragmentation_inputs 1500 20 [1020, 520] = Inr () \<and>
   (\<exists>self' r. simulate_fragmentation (Inr 1500) (Inr 20) (map Inr [1020, 520]) 7 [] app_init = Some self' \<and>
      current_results self' = Some r \<and> length (res_hops r) = length [1020, 520 :: int] \<and>
      (\<forall>hp\<in>set (res_hops r). \<forall>i. i + 1 < length (hd_fragments hp) \<longrightarrow>
         data_length (hd_fragments hp ! i) mod 8 = 0))"
proof -
  have a: "\<forall>i. i + 1 < length [(7, 552, 0, 1), (7, 552, 69, 2), (7 :: int, 376 :: int, 138 :: int, 3 :: int)] \<longrightarrow>
      data_length ([(7, 552, 0, 1), (7, 552, 69, 2), (7, 376, 138, 3)] ! i) mod 8 = 0"
    using alignment[where data_size = 1480 and offset = 0 and header_size = 20
        and mtu = 576 and fid = 7 and frs = "[(7, 552, 0, 1), (7, 552, 69, 2), (7, 376, 138, 3)]"]
      fragment_packet_1480_576[of 7] by blast
  have "data_length ([(7, 552, 0, 1), (7, 552, 69, 2), (7, 376, 138, 3)] ! 0) mod 8 = 0"
    "data_length ([(7, 552, 0, 1), (7, 552, 69, 2), (7, 376, 138, 3)] ! 1) mod 8 = 0"
    using a[rule_format, of 0] a[rule_format, of 1] by simp_all
  moreover have "\<exists>self' r. simulate_fragmentation (Inr 1500) (Inr 20) (map Inr [1020, 520]) 7 [] app_init = Some self' \<and>
      current_results self' = Some r \<and> length (res_hops r) = length [1020, 520 :: int] \<and>
      (\<forall>hp\<in>set (res_hops r). \<forall>i. i + 1 < length (hd_fragments hp) \<longrightarrow>
         data_length (hd_fragments hp ! i) mod 8 = 0)"
    using alignment[where p = 1500 and h = 20 and mtu_path = "[1020, 520]" and fid = 7
        and now = "[]" and self = app_init]
      validate_1500_20_1020_520 by blast
  ultimately show ?thesis
    using fragment_packet_1480_576[of 7] validate_1500_20_1020_520 by (intro conjI)
qed

text \<open>
  \<^bold>\<open>C7\<close> (tiling), as the claim states it for a single call: the fragments returned by
  \<^verbatim>\<open>fragment_packet(data_size, start_offset_bytes, ...)\<close> tile the bytes from
  \<open>start_offset_bytes\<close> to \<open>start_offset_bytes + data_size\<close>. This fails when the start
  offset is not a multiple of 8: the offset field is \<^verbatim>\<open>current_offset // 8\<close>, so for 16
  bytes from byte 4 the two fragments are recorded at bytes 0 and 8, not at 4 and 12.
\<close>

theorem tiling_unaligned_start_counterexample:
  "fragment_packet 16 4 20 28 7 = Some (Inr [(7, 8, 0, 1), (7, 8, 1, 2)]) \<and>
   \<not> tiles [(7, 8, 0, 1), (7, 8, 1, 2)] 4 (4 + 16) \<and>
   offset_units (7, 8, 0, 1) * 8 \<noteq> 4"
  by (simp add: fragment_packet_16_4 offset_units_def)

text \<open>
  \<^bold>\<open>C7\<close>, amended. The fragments returned by \<^verbatim>\<open>fragment_packet\<close> tile the \<open>data_size\<close>
  bytes that begin at the start offset rounded down to a multiple of 8; that is the
  interval from the start offset itself when the start offset is a multiple of 8, as the
  docstring demands and as every call made by the simulation has it. In the list, the
  byte offset of a fragment is the byte offset of the one before plus its data length, and
  the offset fields increase strictly. The same holds for the fragment list of every hop
  recorded by the simulation of an input the validator accepts, which tiles the payload
  from byte 0 to packet size minus header size.
\<close>

theorem tiling:
  "(fragment_packet data_size offset header_size mtu fid = Some (Inr frs) \<longrightarrow>
      tiles frs (offset div 8 * 8) (offset div 8 * 8 + data_size) \<and>
      (offset mod 8 = 0 \<longrightarrow> tiles frs offset (offset + data_size)) \<and>
      (\<forall>i. i + 1 < length frs \<longrightarrow>
         offset_units (frs ! (i + 1)) * 8 = offset_units (frs ! i) * 8 + data_length (frs ! i) \<and>
         offset_units (frs ! i) < offset_units (frs ! (i + 1)))) \<and>
   (validate_fragmentation_inputs p h mtu_path = Inr () \<longrightarrow>
      (\<exists>self' r. simulate_fragmentation (Inr p) (Inr h) (map Inr mtu_path) fid now self = Some self' \<and>
         current_results self' = Some r \<and> length (res_hops r) = length mtu_path \<and>
         (\<forall>hp\<in>set (res_hops r).
            tiles (hd_fragments hp) 0 (p - h) \<and>
            (\<forall>i. i + 1 < length (hd_fragments hp) \<longrightarrow>
               offset_units (hd_fragments hp ! (i + 1)) * 8 =
                 offset_units (hd_fragments hp ! i) * 8 + data_length (hd_fragments hp ! i) \<and>
               offset_units (hd_fragments hp ! i) < offset_units (hd_fragments hp ! (i + 1))))))"
proof (intro conjI impI)
  assume fp: "fragment_packet data_size offset header_size mtu fid = Some (Inr frs)"
  show t: "tiles frs (offset div 8 * 8) (offset div 8 * 8 + data_size)"
    by (rule fragment_packet_tiles(1)[OF fp])
  show "\<forall>i. i + 1 < length frs \<longrightarrow>
         offset_units (frs ! (i + 1)) * 8 = offset_units (frs ! i) * 8 + data_length (frs ! i) \<and>
         offset_units (frs ! i) < offset_units (frs ! (i + 1))"
    using tiles_increasing[OF t fragment_packet_tiles(2)[OF fp]] by blast
  assume "offset mod 8 = 0"
  then have "offset div 8 * 8 = offset" by presburger
  with t show "tiles frs offset (offset + data_size)" by simp
next
  assume "validate_fragmentation_inputs p h mtu_path = Inr ()"
  from simulate_valid[OF this, of fid now self]
  obtain self' r where run: "simulate_fragmentation (Inr p) (Inr h) (map Inr mtu_path) fid now self = Some self'"
    "current_results self' = Some r" "length (res_hops r) = length mtu_path"
    and ok: "\<forall>hp\<in>set (res_hops r). hop_ok (p - h) (hd_fragments hp)"
    by blast
  have "\<forall>hp\<in>set (res_hops r).
            tiles (hd_fragments hp) 0 (p - h) \<and>
            (\<forall>i. i + 1 < length (hd_fragments hp) \<longrightarrow>
               offset_units (hd_fragments hp ! (i + 1)) * 8 =
                 offset_units (hd_fragments hp ! i) * 8 + data_length (hd_fragments hp ! i) \<and>
               offset_units (hd_fragments hp ! i) < offset_units (hd_fragments hp ! (i + 1)))"
  proof
    fix hp assume "hp \<in> set (res_hops r)"
    with ok have t: "tiles (hd_fragments hp) 0 (p - h)"
      and pos: "\<forall>f\<in>set (hd_fragments hp). 0 < data_length f"
      by (simp_all add: hop_ok_def)
    show "tiles (hd_fragments hp) 0 (p - h) \<and>
            (\<forall>i. i + 1 < length (hd_fragments hp) \<longrightarrow>
               offset_units (hd_fragments hp ! (i + 1)) * 8 =
                 offset_units (hd_fragments hp ! i) * 8 + data_length (hd_fragments hp ! i) \<and>
               offset_units (hd_fragments hp ! i) < offset_units (hd_fragments hp ! (i + 1)))"
      using t tiles_increasing[OF t pos] by blast
  qed
  with run show "\<exists>self' r. simulate_fragmentation (Inr p) (Inr h) (map Inr mtu_path) fid now self = Some self' \<and>
         current_results self' = Some r \<and> length (res_hops r) = length mtu_path \<and>
         (\<forall>hp\<in>set (res_hops r).
            tiles (hd_fragments hp) 0 (p - h) \<and>
            (\<forall>i. i + 1 < length (hd_fragments hp) \<longrightarrow>
               offset_units (hd_fragments hp ! (i + 1)) * 8 =
                 offset_units (hd_fragments hp ! i) * 8 + data_length (hd_fragments hp ! i) \<and>
               offset_units (hd_fragments hp ! i) < offset_units (hd_fragments hp ! (i + 1))))"
    by blast
qed

text \<open>The call with the unaligned start offset 4, whose fragments tile the bytes 0 to 16;
  the example call of the docstring, from byte 0; and the simulation of the path
  1020, 520.\<close>

theorem tiling_witness:
  "fragment_packet 16 4 20 28 7 = Some (Inr [(7, 8, 0, 1), (7, 8, 1, 2)]) \<and>
   tiles [(7, 8, 0, 1), (7, 8, 1, 2)] (4 div 8 * 8) (4 div 8 * 8 + 16) \<and>
   fragment_packet 1480 0 20 576 7 =
     Some (Inr [(7, 552, 0, 1), (7, 552, 69, 2), (7, 376, 138, 3)]) \<and>
   (0 :: int) mod 8 = 0 \<and>
   tiles [(7, 552, 0, 1), (7, 552, 69, 2), (7, 376, 138, 3)] 0 (0 + 1480) \<and>
   validate_fragmentation_inputs 1500 20 [1020, 520] = Inr () \<and>
   (\<exists>self' r. simulate_fragmentation (Inr 1500) (Inr 20) (map Inr [1020, 520]) 7 [] app_init = Some self' \<and>
      current_results self' = Some r \<and> length (res_hops r) = length [1020, 520 :: int] \<and>
      (\<forall>hp\<in>set (res_hops r).
         tiles (hd_fragments hp) 0 (1500 - 20) \<and>
         (\<forall>i. i + 1 < length (hd_fragments hp) \<longrightarrow>
            offset_units (hd_fragments hp ! (i + 1)) * 8 =
              offset_units (hd_fragments hp ! i) * 8 + data_length (hd_fragments hp ! i) \<and>
            offset_units (hd_fragments hp ! i) < offset_units (hd_fragments hp ! (i + 1)))))"
proof -
  have "tiles [(7, 8, 0, 1), (7, 8, 1, 2)] (4 div 8 * 8) (4 div 8 * 8 + 16)"
    using tiling[where data_size = 16 and offset = 4 and header_size = 20 and mtu = 28
        and fid = 7 and frs = "[(7, 8, 0, 1), (7, 8, 1, 2)]"]
      fragment_packet_16_4[of 7] by blast
  moreover have "tiles [(7, 552, 0, 1), (7, 552, 69, 2), (7, 376, 138, 3)] 0 (0 + 1480)"
    using tiling[where data_size = 1480 and offset = 0 and header_size = 20 and mtu = 576
        and fid = 7 and frs = "[(7, 552, 0, 1), (7, 552, 69, 2), (7, 376, 138, 3)]"]
      fragment_packet_1480_576[of 7] by simp
  moreover have "\<exists>self' r. simulate_fragmentation (Inr 1500) (Inr 20) (map Inr [1020, 520]) 7 [] app_init = Some self' \<and>
      current_results self' = Some r \<and> length (res_hops r) = length [1020, 520 :: int] \<and>
      (\<forall>hp\<in>set (res_hops r).
         tiles (hd_fragments hp) 0 (1500 - 20) \<and>
         (\<forall>i. i + 1 < length (hd_fragments hp) \<longrightarrow>
            offset_units (hd_fragments hp ! (i + 1)) * 8 =
              offset_units (hd_fragments hp ! i) * 8 + data_length (hd_fragments hp ! i) \<and>
            offset_units (hd_fragments hp ! i) < offset_units (hd_fragments hp ! (i + 1))))"
    using tiling[where p = 1500 and h = 20 and mtu_path = "[1020, 520]" and fid = 7
        and now = "[]" and self = app_init]
      validate_1500_20_1020_520 by blast
  ultimately show ?thesis
    using fragment_packet_16_4[of 7] fragment_packet_1480_576[of 7] validate_1500_20_1020_520
    by (intro conjI) simp_all
qed

text \<open>
  \<^bold>\<open>C8\<close> (pass-through). The list a hop starts from is \<open>xs @ f # ys\<close>. If \<open>f\<close> fits the MTU
  (its data length plus the header size is at most the MTU) and the hop completes, its
  output is the output for \<open>xs\<close>, then \<open>f\<close> itself (the same tuple: identifier, data length,
  offset and also sequence number), then what the fragments of \<open>ys\<close> give: \<open>f\<close> is appended
  as it is and \<^verbatim>\<open>fragment_packet\<close> is not called for it. If every fragment fits, the hop
  returns the list it started from, and that list is what the simulation records for
  the hop.
\<close>

theorem pass_through:
  "(refragment header_size mtu (xs @ f # ys) [] = Some (Inr new_fragments) \<and>
    data_length f + header_size \<le> mtu \<longrightarrow>
      (\<exists>xs' ys'. refragment header_size mtu xs [] = Some (Inr xs') \<and>
                  refragment header_size mtu ys (xs' @ [f]) = Some (Inr new_fragments) \<and>
                  new_fragments = xs' @ f # ys')) \<and>
   (data_length f + header_size \<le> mtu \<longrightarrow>
      refragment header_size mtu (f # ys) acc = refragment header_size mtu ys (acc @ [f])) \<and>
   ((\<forall>g\<in>set fragments. data_length g + header_size \<le> mtu) \<longrightarrow>
      refragment header_size mtu fragments [] = Some (Inr fragments) \<and>
      process_hops header_size fid hop_idx [mtu] fragments self =
        Some (Inr fragments,
              create_hop_table (hop_idx + 1) mtu fragments header_size fid
                (append_hop \<lparr>hd_hop_num = hop_idx + 1, hd_mtu = mtu, hd_fragments = fragments\<rparr>
                   self)))"
proof (intro conjI impI)
  assume "refragment header_size mtu (xs @ f # ys) [] = Some (Inr new_fragments) \<and>
    data_length f + header_size \<le> mtu"
  then show "\<exists>xs' ys'. refragment header_size mtu xs [] = Some (Inr xs') \<and>
                  refragment header_size mtu ys (xs' @ [f]) = Some (Inr new_fragments) \<and>
                  new_fragments = xs' @ f # ys'"
    using refragment_pass_through[of header_size mtu xs f ys "[]" new_fragments] by blast
next
  assume "data_length f + header_size \<le> mtu"
  then show "refragment header_size mtu (f # ys) acc = refragment header_size mtu ys (acc @ [f])"
    by (cases f) (simp add: data_length_def)
next
  assume fit: "\<forall>g\<in>set fragments. data_length g + header_size \<le> mtu"
  show r: "refragment header_size mtu fragments [] = Some (Inr fragments)"
    using refragment_all_fit[OF fit, of "[]"] by simp
  show "process_hops header_size fid hop_idx [mtu] fragments self =
        Some (Inr fragments,
              create_hop_table (hop_idx + 1) mtu fragments header_size fid
                (append_hop \<lparr>hd_hop_num = hop_idx + 1, hd_mtu = mtu, hd_fragments = fragments\<rparr>
                   self))"
    by (simp add: r)
qed

text \<open>The second hop of the path 1020, 520, where the first fragment is split and the
  second (480 bytes and a header of 20 in an MTU of 520) passes through; and a hop of MTU
  1500 that both fragments fit.\<close>

theorem pass_through_witness:
  "refragment 20 520 ([(7, 1000, 0, 1)] @ (7, 480, 125, 2) # []) [] =
     Some (Inr [(7, 496, 0, 1), (7, 496, 62, 2), (7, 8, 124, 3), (7, 480, 125, 2)]) \<and>
   data_length (7, 480, 125, 2) + 20 \<le> 520 \<and>
   (\<exists>xs' ys'. refragment 20 520 [(7, 1000, 0, 1)] [] = Some (Inr xs') \<and>
      refragment 20 520 [] (xs' @ [(7, 480, 125, 2)]) =
        Some (Inr [(7, 496, 0, 1), (7, 496, 62, 2), (7, 8, 124, 3), (7, 480, 125, 2)]) \<and>
      [(7, 496, 0, 1), (7, 496, 62, 2), (7, 8, 124, 3), (7, 480, 125, 2)] =
        xs' @ (7, 480, 125, 2) # ys') \<and>
   list_all (\<lambda>g. data_length g + 20 \<le> 1500) [(7, 1000, 0, 1), (7, 480, 125, 2)] \<and>
   refragment 20 1500 [(7, 1000, 0, 1), (7, 480, 125, 2)] [] =
     Some (Inr [(7, 1000, 0, 1), (7, 480, 125, 2)])"
proof -
  have r: "refragment 20 520 ([(7, 1000, 0, 1)] @ (7, 480, 125, 2) # []) [] =
     Some (Inr [(7, 496, 0, 1), (7, 496, 62, 2), (7, 8, 124, 3), (7, 480, 125, 2)])"
    using refragment_1000_480_520[of 7] by simp
  have fit: "data_length (7, 480, 125, 2) + 20 \<le> 520" by (simp add: data_length_def)
  have all: "list_all (\<lambda>g. data_length g + 20 \<le> 1500) [(7, 1000, 0, 1), (7, 480, 125, 2)]"
    by (simp add: data_length_def)
  have "\<exists>xs' ys'. refragment 20 520 [(7, 1000, 0, 1)] [] = Some (Inr xs') \<and>
      refragment 20 520 [] (xs' @ [(7, 480, 125, 2)]) =
        Some (Inr [(7, 496, 0, 1), (7, 496, 62, 2), (7, 8, 124, 3), (7, 480, 125, 2)]) \<and>
      [(7, 496, 0, 1), (7, 496, 62, 2), (7, 8, 124, 3), (7, 480, 125, 2)] =
        xs' @ (7, 480, 125, 2) # ys'"
    using pass_through[where header_size = 20 and mtu = 520 and xs = "[(7, 1000, 0, 1)]"
        and f = "(7, 480, 125, 2)" and ys = "[]"
        and new_fragments = "[(7, 496, 0, 1), (7, 496, 62, 2), (7, 8, 124, 3), (7, 480, 125, 2)]"
        and acc = "[]" and fragments = "[]" and fid = 7 and hop_idx = 0 and self = app_init]
      r fit by blast
  moreover have "refragment 20 1500 [(7, 1000, 0, 1), (7, 480, 125, 2)] [] =
     Some (Inr [(7, 1000, 0, 1), (7, 480, 125, 2)])"
    using pass_through[where header_size = 20 and mtu = 1500 and xs = "[]"
        and f = "(7, 480, 125, 2)" and ys = "[]" and new_fragments = "[]"
        and acc = "[]" and fragments = "[(7, 1000, 0, 1), (7, 480, 125, 2)]"
        and fid = 7 and hop_idx = 0 and self = app_init]
      all by (simp add: list_all_iff)
  ultimately show ?thesis using r fit all by (intro conjI)
qed

text \<open>
  \<^bold>\<open>C2\<close> (no partial report after a failure). \<^verbatim>\<open>simulate_fragmentation\<close> always
  returns, in one of two ways. Either \<^verbatim>\<open>validate_inputs\<close> accepts the entries: then no
  call of \<^verbatim>\<open>fragment_packet\<close> raises, the hop loop completes, and \<^verbatim>\<open>current_results\<close> is
  the report of this run with one hop for every MTU of the path. Or \<^verbatim>\<open>validate_inputs\<close>
  raises: then the run fails with an error dialog and changes nothing else, so
  \<^verbatim>\<open>current_results\<close> is what it was before the call. Hence the state never holds the hops
  of a run that failed. In particular, inputs on which a call of \<^verbatim>\<open>fragment_packet\<close> in
  the hop loop would raise are inputs that the validation of the method rejects: the whole
  simulation fails and \<^verbatim>\<open>current_results\<close> is untouched.
\<close>

theorem no_partial_report:
  "(\<exists>self'. simulate_fragmentation packet_size_entry header_size_entry mtu_path_entry fid now self =
             Some self' \<and>
      ((\<exists>packet_size header_size mtus hs.
          validate_inputs packet_size_entry header_size_entry mtu_path_entry =
            Inr (packet_size, header_size, mtus) \<and>
          run_simulation packet_size header_size mtus fid now self = Some (Inr (), self') \<and>
          current_results self' = Some
            \<lparr>res_fragment_id = fid, res_original_packet_size = packet_size,
             res_header_size = header_size, res_mtu_path = mtus, res_hops = hs,
             res_timestamp = now\<rparr> \<and>
          map hd_mtu hs = mtus \<and> export_btn_normal self' \<and>
          error_boxes self' = error_boxes self) \<or>
       (\<exists>msg.
          validate_inputs packet_size_entry header_size_entry mtu_path_entry =
            Inl (ValueError msg) \<and>
          self' = showerror ''Validation Error'' msg self \<and>
          current_results self' = current_results self \<and>
          export_btn_normal self' = export_btn_normal self))) \<and>
   (run_simulation p h mtu_path fid now s = Some (Inl e, s') \<longrightarrow>
      (\<exists>msg. validate_inputs (Inr p) (Inr h) (map Inr mtu_path) = Inl (ValueError msg) \<and>
         simulate_fragmentation (Inr p) (Inr h) (map Inr mtu_path) fid now self =
           Some (showerror ''Validation Error'' msg self) \<and>
         current_results (showerror ''Validation Error'' msg self) = current_results self))"
proof (intro conjI impI)
  show "\<exists>self'. simulate_fragmentation packet_size_entry header_size_entry mtu_path_entry fid now self =
             Some self' \<and>
      ((\<exists>packet_size header_size mtus hs.
          validate_inputs packet_size_entry header_size_entry mtu_path_entry =
            Inr (packet_size, header_size, mtus) \<and>
          run_simulation packet_size header_size mtus fid now self = Some (Inr (), self') \<and>
          current_results self' = Some
            \<lparr>res_fragment_id = fid, res_original_packet_size = packet_size,
             res_header_size = header_size, res_mtu_path = mtus, res_hops = hs,
             res_timestamp = now\<rparr> \<and>
          map hd_mtu hs = mtus \<and> export_btn_normal self' \<and>
          error_boxes self' = error_boxes self) \<or>
       (\<exists>msg.
          validate_inputs packet_size_entry header_size_entry mtu_path_entry =
            Inl (ValueError msg) \<and>
          self' = showerror ''Validation Error'' msg self \<and>
          current_results self' = current_results self \<and>
          export_btn_normal self' = export_btn_normal self))"
  proof (cases "validate_inputs packet_size_entry header_size_entry mtu_path_entry")
    case (Inl err)
    then obtain msg where msg: "err = ValueError msg" using validate_inputs_Inl by blast
    have "simulate_fragmentation packet_size_entry header_size_entry mtu_path_entry fid now self =
          Some (showerror ''Validation Error'' msg self)"
      using Inl msg by (simp add: simulate_fragmentation_def)
    moreover have "current_results (showerror ''Validation Error'' msg self) = current_results self"
      "export_btn_normal (showerror ''Validation Error'' msg self) = export_btn_normal self"
      by (simp_all add: showerror_def)
    ultimately show ?thesis using Inl msg by blast
  next
    case (Inr triple)
    obtain packet_size header_size mtus where t: "triple = (packet_size, header_size, mtus)"
      by (cases triple)
    have v: "validate_fragmentation_inputs packet_size header_size mtus = Inr ()"
      using Inr t validate_inputs_Inr by blast
    from run_simulation_valid[OF v, of fid now self]
    obtain self' hs where run: "run_simulation packet_size header_size mtus fid now self = Some (Inr (), self')"
      and rest: "current_results self' = Some
            \<lparr>res_fragment_id = fid, res_original_packet_size = packet_size,
             res_header_size = header_size, res_mtu_path = mtus, res_hops = hs,
             res_timestamp = now\<rparr>"
        "map hd_mtu hs = mtus" "export_btn_normal self'" "error_boxes self' = error_boxes self"
      by blast
    have "simulate_fragmentation packet_size_entry header_size_entry mtu_path_entry fid now self =
          Some self'"
      using Inr t run by (simp add: simulate_fragmentation_def)
    then show ?thesis using Inr t run rest by blast
  qed
next
  assume fail: "run_simulation p h mtu_path fid now s = Some (Inl e, s')"
  have nv: "validate_fragmentation_inputs p h mtu_path \<noteq> Inr ()"
  proof
    assume "validate_fragmentation_inputs p h mtu_path = Inr ()"
    from run_simulation_valid[OF this, of fid now s] fail show False by auto
  qed
  then have "\<exists>err. validate_inputs (Inr p) (Inr h) (map Inr mtu_path) = Inl err"
    by (cases "validate_fragmentation_inputs p h mtu_path")
       (simp_all add: validate_inputs_parsed)
  then obtain err where "validate_inputs (Inr p) (Inr h) (map Inr mtu_path) = Inl err" ..
  then obtain msg where msg: "validate_inputs (Inr p) (Inr h) (map Inr mtu_path) = Inl (ValueError msg)"
    using validate_inputs_Inl by blast
  then have "simulate_fragmentation (Inr p) (Inr h) (map Inr mtu_path) fid now self =
           Some (showerror ''Validation Error'' msg self)"
    by (simp add: simulate_fragmentation_def)
  moreover have "current_results (showerror ''Validation Error'' msg self) = current_results self"
    by (simp add: showerror_def)
  ultimately show "\<exists>msg. validate_inputs (Inr p) (Inr h) (map Inr mtu_path) = Inl (ValueError msg) \<and>
         simulate_fragmentation (Inr p) (Inr h) (map Inr mtu_path) fid now self =
           Some (showerror ''Validation Error'' msg self) \<and>
         current_results (showerror ''Validation Error'' msg self) = current_results self"
    using msg by blast
qed

text \<open>Packet size 70000 with the MTU path 70020, 65556: the hop loop alone would record
  hop 1 and raise the offset-overflow error in hop 2, and the method rejects the input and
  leaves \<^verbatim>\<open>current_results\<close> at \<open>None\<close>. Packet size 1500 with the path 1020, 520: the
  method completes.\<close>

theorem no_partial_report_witness:
  "run_simulation 70000 20 [70020, 65556] 7 [] app_init =
     Some (Inl (ValueError (''Fragment offset 8192 exceeds maximum (8191). '' @
                            ''Packet too large for fragmentation at offset 65536 bytes.'')),
           \<lparr>current_results = Some
              \<lparr>res_fragment_id = 7, res_original_packet_size = 70000, res_header_size = 20,
               res_mtu_path = [70020, 65556],
               res_hops = [\<lparr>hd_hop_num = 1, hd_mtu = 70020, hd_fragments = [(7, 69980, 0, 1)]\<rparr>],
               res_timestamp = []\<rparr>,
            export_btn_normal = False,
            viz_scroll = [\<lparr>tbl_hop_num = 1, tbl_mtu = 70020,
               tbl_rows = [[''#1'', ''7'', ''70000 B'', ''69980 B'', ''0'', ''0'', ''0 (Last)'']]\<rparr>],
            error_boxes = []\<rparr>) \<and>
   (\<exists>msg. validate_inputs (Inr 70000) (Inr 20) (map Inr [70020, 65556]) = Inl (ValueError msg) \<and>
      simulate_fragmentation (Inr 70000) (Inr 20) (map Inr [70020, 65556]) 7 [] app_init =
        Some (showerror ''Validation Error'' msg app_init) \<and>
      current_results (showerror ''Validation Error'' msg app_init) = current_results app_init) \<and>
   current_results app_init = None \<and>
   (\<exists>self'. simulate_fragmentation (Inr 1500) (Inr 20) (map Inr [1020, 520]) 7 [] app_init =
             Some self' \<and>
      ((\<exists>packet_size header_size mtus hs.
          validate_inputs (Inr 1500) (Inr 20) (map Inr [1020, 520]) =
            Inr (packet_size, header_size, mtus) \<and>
          run_simulation packet_size header_size mtus 7 [] app_init = Some (Inr (), self') \<and>
          current_results self' = Some
            \<lparr>res_fragment_id = 7, res_original_packet_size = packet_size,
             res_header_size = header_size, res_mtu_path = mtus, res_hops = hs,
             res_timestamp = []\<rparr> \<and>
          map hd_mtu hs = mtus \<and> export_btn_normal self' \<and>
          error_boxes self' = error_boxes app_init) \<or>
       (\<exists>msg.
          validate_inputs (Inr 1500) (Inr 20) (map Inr [1020, 520]) = Inl (ValueError msg) \<and>
          self' = showerror ''Validation Error'' msg app_init \<and>
          current_results self' = current_results app_init \<and>
          export_btn_normal self' = export_btn_normal app_init)))"
proof (intro conjI)
  show "run_simulation 70000 20 [70020, 65556] 7 [] app_init =
     Some (Inl (ValueError (''Fragment offset 8192 exceeds maximum (8191). '' @
                            ''Packet too large for fragmentation at offset 65536 bytes.'')),
           \<lparr>current_results = Some
              \<lparr>res_fragment_id = 7, res_original_packet_size = 70000, res_header_size = 20,
               res_mtu_path = [70020, 65556],
               res_hops = [\<lparr>hd_hop_num = 1, hd_mtu = 70020, hd_fragments = [(7, 69980, 0, 1)]\<rparr>],
               res_timestamp = []\<rparr>,
            export_btn_normal = False,
            viz_scroll = [\<lparr>tbl_hop_num = 1, tbl_mtu = 70020,
               tbl_rows = [[''#1'', ''7'', ''70000 B'', ''69980 B'', ''0'', ''0'', ''0 (Last)'']]\<rparr>],
            error_boxes = []\<rparr>)"
    by (rule run_simulation_70000)
  show "\<exists>msg. validate_inputs (Inr 70000) (Inr 20) (map Inr [70020, 65556]) = Inl (ValueError msg) \<and>
      simulate_fragmentation (Inr 70000) (Inr 20) (map Inr [70020, 65556]) 7 [] app_init =
        Some (showerror ''Validation Error'' msg app_init) \<and>
      current_results (showerror ''Validation Error'' msg app_init) = current_results app_init"
    using no_partial_report[where p = 70000 and h = 20 and mtu_path = "[70020, 65556]"
        and fid = 7 and now = "[]" and s = app_init and self = app_init
        and packet_size_entry = "Inr 0" and header_size_entry = "Inr 0" and mtu_path_entry = "[]"]
      run_simulation_70000 by blast
  show "current_results app_init = None" by (simp add: app_init_def)
  show "\<exists>self'. simulate_fragmentation (Inr 1500) (Inr 20) (map Inr [1020, 520]) 7 [] app_init =
             Some self' \<and>
      ((\<exists>packet_size header_size mtus hs.
          validate_inputs (Inr 1500) (Inr 20) (map Inr [1020, 520]) =
            Inr (packet_size, header_size, mtus) \<and>
          run_simulation packet_size header_size mtus 7 [] app_init = Some (Inr (), self') \<and>
          current_results self' = Some
            \<lparr>res_fragment_id = 7, res_original_packet_size = packet_size,
             res_header_size = header_size, res_mtu_path = mtus, res_hops = hs,
             res_timestamp = []\<rparr> \<and>
          map hd_mtu hs = mtus \<and> export_btn_normal self' \<and>
          error_boxes self' = error_boxes app_init) \<or>
       (\<exists>msg.
          validate_inputs (Inr 1500) (Inr 20) (map Inr [1020, 520]) = Inl (ValueError msg) \<and>
          self' = showerror ''Validation Error'' msg app_init \<and>
          current_results self' = current_results app_init \<and>
          export_btn_normal self' = export_btn_normal app_init))"
    using no_partial_report[where packet_size_entry = "Inr 1500" and header_size_entry = "Inr 20"
        and mtu_path_entry = "map Inr [1020, 520]" and fid = 7 and now = "[]" and self = app_init
        and p = 0 and h = 0 and mtu_path = "[]" and s = app_init and e = "ValueError []"
        and s' = app_init]
    by (elim conjE)
qed

end
